theory Spec2Isabelle
  imports Complex_Main "HOL-Library.AList" "HOL-Library.Char_ord" "HOL-Library.List_Lexorder"
begin

section \<open>Python text operations used by the parser\<close>

text \<open>
  Text is modelled as \<^typ>\<open>string\<close> and taken to be ASCII: case mapping touches the
  26 letters only, and white space is what \<^verbatim>\<open>str.strip\<close> and \<^verbatim>\<open>str.split\<close> remove
  in the ASCII range.
\<close>

definition lower_char :: "char \<Rightarrow> char" where
  "lower_char c =
     (case map_of (zip ''ABCDEFGHIJKLMNOPQRSTUVWXYZ'' ''abcdefghijklmnopqrstuvwxyz'') c of
        Some d \<Rightarrow> d | None \<Rightarrow> c)"

definition upper_char :: "char \<Rightarrow> char" where
  "upper_char c =
     (case map_of (zip ''abcdefghijklmnopqrstuvwxyz'' ''ABCDEFGHIJKLMNOPQRSTUVWXYZ'') c of
        Some d \<Rightarrow> d | None \<Rightarrow> c)"

definition lower :: "string \<Rightarrow> string" where
  "lower s = map lower_char s"

definition upper :: "string \<Rightarrow> string" where
  "upper s = map upper_char s"

definition is_space :: "char \<Rightarrow> bool" where
  "is_space c \<longleftrightarrow>
     c \<in> set [CHR '' '', CHR 0x09, CHR 0x0A, CHR 0x0B, CHR 0x0C, CHR 0x0D,
              CHR 0x1C, CHR 0x1D, CHR 0x1E, CHR 0x1F]"

definition is_digit :: "char \<Rightarrow> bool" where
  "is_digit c \<longleftrightarrow> c \<in> set ''0123456789''"

definition is_alpha :: "char \<Rightarrow> bool" where
  "is_alpha c \<longleftrightarrow> lower_char c \<in> set ''abcdefghijklmnopqrstuvwxyz''"

definition strip :: "string \<Rightarrow> string" where
  "strip s = rev (dropWhile is_space (rev (dropWhile is_space s)))"

text \<open>\<^verbatim>\<open>s.rstrip("_")\<close>\<close>

definition rstrip_us :: "string \<Rightarrow> string" where
  "rstrip_us s = rev (dropWhile (\<lambda>c. c = CHR ''_'') (rev s))"

text \<open>\<^verbatim>\<open>s.replace(a, b)\<close> for a one-character \<open>a\<close> and a \<open>b\<close> of any length.\<close>

definition replace :: "char \<Rightarrow> string \<Rightarrow> string \<Rightarrow> string" where
  "replace a b s = concat (map (\<lambda>c. if c = a then b else [c]) s)"

definition startswith :: "string \<Rightarrow> string \<Rightarrow> bool" where
  "startswith s t \<longleftrightarrow> take (length t) s = t"

definition endswith :: "string \<Rightarrow> string \<Rightarrow> bool" where
  "endswith s t \<longleftrightarrow> length t \<le> length s \<and> drop (length s - length t) s = t"

text \<open>\<^verbatim>\<open>t in s\<close> on strings: \<open>t\<close> occurs in \<open>s\<close>.\<close>

fun contains :: "string \<Rightarrow> string \<Rightarrow> bool" where
  "contains [] t \<longleftrightarrow> t = []"
| "contains (c # cs) t \<longleftrightarrow> startswith (c # cs) t \<or> contains cs t"

text \<open>
  \<^verbatim>\<open>s.split()\<close>: the maximal runs of non-space characters. The word being read is kept
  reversed in \<open>cur\<close>.
\<close>

fun split_acc :: "string \<Rightarrow> string \<Rightarrow> string list" where
  "split_acc cur [] = (if cur = [] then [] else [rev cur])"
| "split_acc cur (c # cs) =
     (if is_space c then (if cur = [] then split_acc [] cs else rev cur # split_acc [] cs)
      else split_acc (c # cur) cs)"

definition split_ws :: "string \<Rightarrow> string list" where
  "split_ws s = split_acc [] s"

text \<open>\<^verbatim>\<open>" ".join(ws)\<close>\<close>

fun join_sp :: "string list \<Rightarrow> string" where
  "join_sp [] = []"
| "join_sp [w] = w"
| "join_sp (w # ws) = w @ '' '' @ join_sp ws"

text \<open>\<^verbatim>\<open>ws[-2:]\<close>\<close>

definition last_two :: "'a list \<Rightarrow> 'a list" where
  "last_two ws = drop (length ws - 2) ws"

section \<open>Cells and synonym tables\<close>

text \<open>
  A cell read with \<^verbatim>\<open>values_only=True\<close> is \<^verbatim>\<open>None\<close>, a string, or another scalar
  (an int, a float, a bool, a date). The parser applies three built-ins to a cell:
  \<^verbatim>\<open>str\<close>, truth testing and \<^verbatim>\<open>float\<close>. A scalar that is neither \<^verbatim>\<open>None\<close> nor a
  string is represented by what these three return for it; the number is \<open>None\<close> when
  \<^verbatim>\<open>float\<close> raises. The int \<open>0\<close> is \<open>CObj ''0'' False (Some (Num 0))\<close>, the float
  \<open>10.5\<close> is \<open>CObj ''10.5'' True (Some (Num (21/2)))\<close>.

  A Python float is a finite number, read as a rational, one of the two infinities, or
  not-a-number: \<^verbatim>\<open>float("inf")\<close>, \<^verbatim>\<open>float("-inf")\<close> and \<^verbatim>\<open>float("nan")\<close> all return.
\<close>

datatype pyfloat = Num rat | PosInf | NegInf | NaN

datatype cell = CNone | CStr string | CObj string bool "pyfloat option"

fun str :: "cell \<Rightarrow> string" where
  "str CNone = ''None''"
| "str (CStr s) = s"
| "str (CObj s b f) = s"

fun truthy :: "cell \<Rightarrow> bool" where
  "truthy CNone \<longleftrightarrow> False"
| "truthy (CStr s) \<longleftrightarrow> s \<noteq> []"
| "truthy (CObj s b f) \<longleftrightarrow> b"

definition UNIT_PRICE_SYNONYMS :: "string list" where
  "UNIT_PRICE_SYNONYMS = [''unit price'', ''unit cost'', ''unit_price'', ''unit_cost'', ''unitprice'']"

definition EXT_PRICE_SYNONYMS :: "string list" where
  "EXT_PRICE_SYNONYMS =
     [''total price'', ''ext. price'', ''ext price'', ''extended price'',
      ''ext. cost'', ''ext cost'', ''extended cost'', ''total_price'',
      ''ext_price'', ''ext_cost'', ''totalprice'', ''extprice'']"

definition ITEM_NUM_SYNONYMS :: "string list" where
  "ITEM_NUM_SYNONYMS =
     [''item #'', ''item#'', ''item no'', ''item no.'', ''item number'', ''line no'', ''line no.'']"

definition DESC_SYNONYMS :: "string list" where
  "DESC_SYNONYMS = [''description'', ''desc'']"

definition UNIT_SYNONYMS :: "string list" where
  "UNIT_SYNONYMS = [''unit'', ''units'', ''unit of measure'', ''uom'']"

definition QTY_SYNONYMS :: "string list" where
  "QTY_SYNONYMS = [''qty quoted'', ''qty'', ''quantity'', ''units quoted'', ''qty quoted'']"

definition SIZE_SYNONYMS :: "string list" where
  "SIZE_SYNONYMS = [''size'']"

definition norm_cell :: "cell \<Rightarrow> string" where
  "norm_cell val = (if val = CNone then [] else lower (strip (str val)))"

definition matches :: "cell \<Rightarrow> string list \<Rightarrow> bool" where
  "matches val synonyms \<longleftrightarrow> norm_cell val \<in> set synonyms"

section \<open>Header locator\<close>

definition is_header_row :: "cell list \<Rightarrow> bool" where
  "is_header_row row \<longleftrightarrow>
     list_ex (\<lambda>c. matches c ITEM_NUM_SYNONYMS) row \<and> list_ex (\<lambda>c. matches c DESC_SYNONYMS) row"

text \<open>The loop \<^verbatim>\<open>for i, row in enumerate(rows[:15])\<close>, from index \<open>i\<close> on.\<close>

fun find_header_from :: "nat \<Rightarrow> cell list list \<Rightarrow> (nat \<times> cell list) option" where
  "find_header_from i [] = None"
| "find_header_from i (row # rows) =
     (if is_header_row row then Some (i, row) else find_header_from (Suc i) rows)"

definition find_header_row :: "cell list list \<Rightarrow> (nat \<times> cell list) option" where
  "find_header_row rows = find_header_from 0 (take 15 rows)"

section \<open>Format classifier\<close>

text \<open>
  The regular expressions of the source are written out as matchers. In all of them
  \<^verbatim>\<open>.\<close> matches any character but a line break. \<open>kw_gap a b t\<close>: \<open>t\<close> starts with
  \<open>a\<close>, then at most one character, then \<open>b\<close> (the pattern \<^verbatim>\<open>a.?b\<close> at the start of \<open>t\<close>).
\<close>

definition kw_gap :: "string \<Rightarrow> string \<Rightarrow> string \<Rightarrow> bool" where
  "kw_gap a b t \<longleftrightarrow>
     startswith t a \<and>
     (let r = drop (length a) t
      in startswith r b \<or> (case r of [] \<Rightarrow> False | c # r' \<Rightarrow> c \<noteq> CHR 0x0A \<and> startswith r' b))"

definition price_kw_at :: "string \<Rightarrow> bool" where
  "price_kw_at t \<longleftrightarrow>
     kw_gap ''unit'' ''price'' t \<or> kw_gap ''unit'' ''cost'' t \<or> kw_gap ''total'' ''price'' t \<or>
     kw_gap ''ext'' ''price'' t \<or> kw_gap ''ext'' ''cost'' t"

text \<open>\<^verbatim>\<open>re.search(r"(unit.?price|unit.?cost|total.?price|ext.?price|ext.?cost)", s)\<close>\<close>

fun search_price_kw :: "string \<Rightarrow> bool" where
  "search_price_kw [] \<longleftrightarrow> False"
| "search_price_kw (c # cs) \<longleftrightarrow> price_kw_at (c # cs) \<or> search_price_kw cs"

text \<open>\<^verbatim>\<open>s.rsplit("_", 1)[-1]\<close>: what follows the last underscore.\<close>

definition rsplit_us_last :: "string \<Rightarrow> string" where
  "rsplit_us_last s = rev (takeWhile (\<lambda>c. c \<noteq> CHR ''_'') (rev s))"

definition detect_underscore :: "cell \<Rightarrow> bool" where
  "detect_underscore h \<longleftrightarrow>
     (let s = norm_cell h
      in s \<noteq> [] \<and> contains s ''_'' \<and>
         (rsplit_us_last s \<in> set [''unit_price'', ''unit price'', ''total_price'', ''total price'',
                                  ''unit_cost'', ''ext_price'', ''ext_cost'', ''unit cost'', ''ext cost'']
          \<or> search_price_kw s))"

text \<open>
  \<^verbatim>\<open>re.match(r"^[A-Z][A-Z0-9\-]+_(UNIT_PRICE|TOTAL_PRICE|UNIT_COST|EXT_COST|EXT_PRICE)", s, re.IGNORECASE)\<close>.
  The character class has no underscore, so the greedy run is the longest one.
\<close>

definition is_name_char :: "char \<Rightarrow> bool" where
  "is_name_char c \<longleftrightarrow> is_alpha c \<or> is_digit c \<or> c = CHR ''-''"

definition match_bidder_us :: "string \<Rightarrow> bool" where
  "match_bidder_us s \<longleftrightarrow>
     (case s of [] \<Rightarrow> False
      | c # cs \<Rightarrow> is_alpha c \<and> takeWhile is_name_char cs \<noteq> [] \<and>
          list_ex (\<lambda>k. startswith (lower (dropWhile is_name_char cs)) (CHR ''_'' # k))
            [''unit_price'', ''total_price'', ''unit_cost'', ''ext_cost'', ''ext_price''])"

definition detect_regex :: "cell \<Rightarrow> bool" where
  "detect_regex h \<longleftrightarrow> match_bidder_us (if truthy h then strip (str h) else [])"

definition PRICE_ENDINGS_2W :: "string list" where
  "PRICE_ENDINGS_2W =
     [''unit price'', ''unit cost'', ''total price'',
      ''ext price'', ''ext. price'', ''extended price'',
      ''ext cost'', ''ext. cost'', ''extended cost'']"

definition detect_spaces :: "cell \<Rightarrow> bool" where
  "detect_spaces h \<longleftrightarrow>
     truthy h \<and>
     (let words = split_ws (replace (CHR ''>'') ''.'' (lower (strip (str h))))
      in 3 \<le> length words \<and> join_sp (last_two words) \<in> set PRICE_ENDINGS_2W)"

text \<open>The three loops of the source run one after the other; each returns at its first hit.\<close>

definition detect_format_b :: "cell list \<Rightarrow> bool" where
  "detect_format_b header_cols \<longleftrightarrow>
     list_ex detect_underscore header_cols \<or> list_ex detect_regex header_cols \<or>
     list_ex detect_spaces header_cols"

section \<open>Compound-header extractor\<close>

text \<open>
  Dictionaries are association lists in insertion order: \<open>map_of\<close> reads a key,
  \<open>AList.update\<close> writes one (in place when the key is there, at the end otherwise, as a
  Python \<^verbatim>\<open>dict\<close> does). \<open>rfq_map\<close> maps a field name to a column, \<open>bidder_map\<close> a bidder
  name to the dictionary of its price columns.
\<close>

type_synonym rfq_map = "(string \<times> nat) list"
type_synonym bidder_map = "(string \<times> (string \<times> nat) list) list"

text \<open>
  \<^verbatim>\<open>if name not in bidder_map: bidder_map[name] = {}\<close> followed by
  \<^verbatim>\<open>bidder_map[name][field] = col_i\<close>.
\<close>

definition set_bidder_col :: "string \<Rightarrow> string \<Rightarrow> nat \<Rightarrow> bidder_map \<Rightarrow> bidder_map" where
  "set_bidder_col name field col_i bm =
     AList.update name
       (AList.update field col_i (case map_of bm name of None \<Rightarrow> [] | Some d \<Rightarrow> d)) bm"

text \<open>
  The loop over \<open>UNIT_PRICE_SYNONYMS\<close>. The source iterates a set; the suffixes tested are
  pairwise exclusive and cut the same number of characters whichever of them matches, so
  the list order used here does not change the result. The pair returned is
  \<open>(matched_bidder, matched_field)\<close>, with the empty string for \<^verbatim>\<open>None\<close> (the source
  only tests both for truth).
\<close>

fun unit_syn_loop :: "string \<Rightarrow> string \<Rightarrow> string list \<Rightarrow> string \<times> string" where
  "unit_syn_loop s s_low [] = ([], [])"
| "unit_syn_loop s s_low (syn # syns) =
     (let syn_under = replace (CHR '' '') ''_'' syn
      in if endswith s_low (CHR ''_'' # syn_under) \<or> endswith s_low (CHR ''_'' # syn)
         then (upper (rstrip_us (take (length s - (length syn_under + 1)) s)), ''unit_price'')
         else unit_syn_loop s s_low syns)"

fun ext_syn_loop :: "string \<Rightarrow> string \<Rightarrow> string list \<Rightarrow> string \<times> string" where
  "ext_syn_loop s s_low [] = ([], [])"
| "ext_syn_loop s s_low (syn # syns) =
     (let syn_under = replace (CHR ''.'') [] (replace (CHR '' '') ''_'' syn);
          s_test = replace (CHR '' '') ''_'' (replace (CHR ''.'') [] s_low);
          syn_test = replace (CHR ''.'') [] syn_under
      in if endswith s_test (CHR ''_'' # syn_test)
         then (upper (rstrip_us (take (length s - (length syn_under + 1)) s)), ''ext_price'')
         else ext_syn_loop s s_low syns)"

text \<open>
  \<^verbatim>\<open>re.match(r"^(.+?)_(UNIT.?PRICE|UNIT.?COST|TOTAL.?PRICE|EXT.?PRICE|EXT.?COST)$", s, re.IGNORECASE)\<close>:
  \<open>kw_full\<close> is the second group matched against a whole string, \<open>re_split_from\<close> tries
  the first group from the shortest on and returns both groups. The string matched is
  stripped, so \<^verbatim>\<open>$\<close> is its end.
\<close>

definition kw_gap_full :: "string \<Rightarrow> string \<Rightarrow> string \<Rightarrow> bool" where
  "kw_gap_full a b t \<longleftrightarrow>
     startswith t a \<and>
     (let r = drop (length a) t
      in r = b \<or> (case r of [] \<Rightarrow> False | c # r' \<Rightarrow> c \<noteq> CHR 0x0A \<and> r' = b))"

definition kw_full :: "string \<Rightarrow> bool" where
  "kw_full t \<longleftrightarrow>
     (let l = lower t
      in kw_gap_full ''unit'' ''price'' l \<or> kw_gap_full ''unit'' ''cost'' l \<or>
         kw_gap_full ''total'' ''price'' l \<or> kw_gap_full ''ext'' ''price'' l \<or>
         kw_gap_full ''ext'' ''cost'' l)"

fun re_split_from :: "string \<Rightarrow> string \<Rightarrow> (string \<times> string) option" where
  "re_split_from pre [] = None"
| "re_split_from pre (c # cs) =
     (if c = CHR 0x0A then None
      else (case cs of
              [] \<Rightarrow> None
            | d # kw \<Rightarrow> if d = CHR ''_'' \<and> kw_full kw then Some (pre @ [c], kw)
                        else re_split_from (pre @ [c]) cs))"

definition regex_fallback :: "string \<Rightarrow> string \<times> string" where
  "regex_fallback s =
     (case re_split_from [] s of
        None \<Rightarrow> ([], [])
      | Some (g1, g2) \<Rightarrow>
          (let field_raw = lower g2
           in (upper g1,
               if (contains field_raw ''unit'' \<or> contains field_raw ''cost'') \<and>
                  \<not> contains field_raw ''total'' \<and> \<not> contains field_raw ''ext''
               then ''unit_price'' else ''ext_price'')))"

definition space_fallback :: "string \<Rightarrow> string \<times> string" where
  "space_fallback s =
     (let words = split_ws (replace (CHR ''>'') ''.'' s)
      in if 3 \<le> length words
         then (let l2 = lower (join_sp (last_two words))
               in if l2 \<in> set [''unit price'', ''unit cost'']
                  then (upper (hd words), ''unit_price'')
                  else if l2 \<in> set [''total price'', ''ext price'', ''ext. price'',
                                     ''extended price'', ''ext cost'', ''ext. cost'', ''extended cost'']
                  then (upper (hd words), ''ext_price'')
                  else ([], []))
         else ([], []))"

text \<open>
  The four attempts on one header text, each made only while \<open>matched_bidder\<close> is still
  empty. An attempt that does not match leaves both variables as they were.
\<close>

definition match_compound :: "string \<Rightarrow> string \<times> string" where
  "match_compound s =
     (let s_low = lower s;
          m1 = unit_syn_loop s s_low UNIT_PRICE_SYNONYMS;
          m2 = (if fst m1 = [] then
                  (let e = ext_syn_loop s s_low EXT_PRICE_SYNONYMS
                   in if snd e = [] then m1 else e)
                else m1);
          m3 = (if fst m2 = [] then
                  (let r = regex_fallback s in if snd r = [] then m2 else r)
                else m2);
          m4 = (if fst m3 = [] then
                  (let w = space_fallback s in if snd w = [] then m3 else w)
                else m3)
      in m4)"

definition rfq_col :: "cell \<Rightarrow> nat \<Rightarrow> rfq_map \<Rightarrow> rfq_map" where
  "rfq_col h col_i rm =
     (if matches h ITEM_NUM_SYNONYMS then AList.update ''item_num'' col_i rm
      else if matches h DESC_SYNONYMS then AList.update ''description'' col_i rm
      else if matches h UNIT_SYNONYMS then AList.update ''unit'' col_i rm
      else if matches h QTY_SYNONYMS then AList.update ''quantity'' col_i rm
      else if matches h SIZE_SYNONYMS then AList.update ''size'' col_i rm
      else rm)"

definition format_b_col :: "nat \<times> cell \<Rightarrow> rfq_map \<times> bidder_map \<Rightarrow> rfq_map \<times> bidder_map" where
  "format_b_col ch st =
     (case ch of (col_i, h) \<Rightarrow> case st of (rm, bm) \<Rightarrow>
        if h = CNone then (rm, bm)
        else (let m = match_compound (strip (str h))
              in if fst m \<noteq> [] \<and> snd m \<noteq> []
                 then (rm, set_bidder_col (fst m) (snd m) col_i bm)
                 else (rfq_col h col_i rm, bm)))"

definition parse_format_b :: "cell list list \<Rightarrow> nat \<Rightarrow> cell list \<Rightarrow> rfq_map \<times> bidder_map" where
  "parse_format_b rows header_idx header_cols =
     fold format_b_col (enumerate 0 header_cols) ([], [])"

section \<open>Bidder-row extractor\<close>

definition SKIP_WORDS :: "string list" where
  "SKIP_WORDS = [''rfq'', ''none'', ''delivery'', ''weeks'', ''manufacturer'',
                 ''comments'', ''vendor comments'', ''unit price'', ''total price'']"

text \<open>\<^verbatim>\<open>re.match(r"^[\d\s\.\-\(\)\+]+$", s)\<close> on a stripped string.\<close>

definition phone_like :: "string \<Rightarrow> bool" where
  "phone_like s \<longleftrightarrow> s \<noteq> [] \<and> list_all (\<lambda>c. is_digit c \<or> is_space c \<or> c \<in> set ''.-()+'') s"

text \<open>The tests one cell goes through; the result is the name recorded for its column.\<close>

definition bidder_candidate :: "cell \<Rightarrow> string option" where
  "bidder_candidate val =
     (if val = CNone then None
      else (let s = strip (str val)
            in if s = [] \<or> 50 < length s then None
               else if norm_cell (CStr s) \<in> set SKIP_WORDS then None
               else if phone_like s then None
               else if contains s ''@'' then None
               else if 4 < length (split_ws s) then None
               else Some (upper s)))"

definition row_candidates :: "cell list \<Rightarrow> (nat \<times> string) list" where
  "row_candidates row =
     List.map_filter (\<lambda>(col_i, val). map_option (\<lambda>n. (col_i, n)) (bidder_candidate val))
       (enumerate 0 row)"

text \<open>
  One row of the scan, on the state \<open>(best_row, best_score)\<close>. The score is a float in the
  source and a rational here: name lengths are at most 50, so two different averages
  differ by far more than a rounding error.
\<close>

definition bidder_row_step ::
  "cell list \<Rightarrow> (nat \<times> string) list \<times> rat \<Rightarrow> (nat \<times> string) list \<times> rat" where
  "bidder_row_step row st =
     (let candidates = row_candidates row
      in if 2 \<le> length candidates
         then (let avg_len = rat_of_nat (sum_list (map (\<lambda>(c, v). length v) candidates))
                             / rat_of_nat (length candidates);
                   score = 1 / avg_len
               in if snd st < score then (candidates, score) else st)
         else st)"

text \<open>
  The rows \<open>0..header_idx - 1\<close>; the caller passes the index of a row of \<open>rows\<close>, so all of
  them exist.
\<close>

definition find_bidder_names_above :: "cell list list \<Rightarrow> nat \<Rightarrow> (nat \<times> string) list" where
  "find_bidder_names_above rows header_idx =
     fst (fold bidder_row_step (take header_idx rows) ([], 0))"

text \<open>Step 2 of the source: one header column, on the state \<open>(rfq_map, col_roles)\<close>.\<close>

definition format_ac_col ::
  "nat \<times> cell \<Rightarrow> rfq_map \<times> (nat \<times> string) list \<Rightarrow> rfq_map \<times> (nat \<times> string) list" where
  "format_ac_col ch st =
     (case ch of (col_i, h) \<Rightarrow> case st of (rm, col_roles) \<Rightarrow>
        if h = CNone then (rm, col_roles)
        else if matches h ITEM_NUM_SYNONYMS then (AList.update ''item_num'' col_i rm, col_roles)
        else if matches h DESC_SYNONYMS then (AList.update ''description'' col_i rm, col_roles)
        else if matches h UNIT_SYNONYMS then (AList.update ''unit'' col_i rm, col_roles)
        else if matches h QTY_SYNONYMS then (AList.update ''quantity'' col_i rm, col_roles)
        else if matches h SIZE_SYNONYMS then (AList.update ''size'' col_i rm, col_roles)
        else if norm_cell h \<in> set UNIT_PRICE_SYNONYMS
             then (rm, AList.update col_i ''unit_price'' col_roles)
        else if norm_cell h \<in> set EXT_PRICE_SYNONYMS
             then (rm, AList.update col_i ''ext_price'' col_roles)
        else (rm, col_roles))"

text \<open>
  The loop of \<^verbatim>\<open>_bidder_for_col\<close> over the sorted bidder columns, with its \<^verbatim>\<open>break\<close>,
  and the lookup of the owner's name.
\<close>

fun owner_loop :: "nat option \<Rightarrow> nat \<Rightarrow> nat list \<Rightarrow> nat option" where
  "owner_loop owner col_i [] = owner"
| "owner_loop owner col_i (bc # bcs) =
     (if bc \<le> col_i then owner_loop (Some bc) col_i bcs else owner)"

definition bidder_for_col :: "(nat \<times> string) list \<Rightarrow> nat \<Rightarrow> string option" where
  "bidder_for_col bidder_names_at_col col_i =
     (case owner_loop None col_i (sort (map fst bidder_names_at_col)) of
        None \<Rightarrow> None
      | Some owner \<Rightarrow> map_of bidder_names_at_col owner)"

text \<open>Step 3: one price column, on \<open>bidder_map\<close>. An empty name is false in the source.\<close>

definition assign_col :: "(nat \<times> string) list \<Rightarrow> nat \<times> string \<Rightarrow> bidder_map \<Rightarrow> bidder_map" where
  "assign_col bidder_names_at_col cr bm =
     (case cr of (col_i, role) \<Rightarrow>
        (case bidder_for_col bidder_names_at_col col_i of
           None \<Rightarrow> bm
         | Some name \<Rightarrow> if name \<noteq> [] then set_bidder_col name role col_i bm else bm))"

definition header_roles :: "cell list \<Rightarrow> rfq_map \<times> (nat \<times> string) list" where
  "header_roles header_cols = fold format_ac_col (enumerate 0 header_cols) ([], [])"

definition parse_format_ac :: "cell list list \<Rightarrow> nat \<Rightarrow> cell list \<Rightarrow> rfq_map \<times> bidder_map" where
  "parse_format_ac rows header_idx header_cols =
     (let bidder_names_at_col = find_bidder_names_above rows header_idx;
          (rm, col_roles) = header_roles header_cols
      in (rm, fold (assign_col bidder_names_at_col) col_roles []))"

section \<open>Item row extractor\<close>

text \<open>\<^verbatim>\<open>description.split(",", 1)\<close> when a comma is there: before and after the first one.\<close>

definition split_comma :: "string \<Rightarrow> string \<times> string" where
  "split_comma s =
     (takeWhile (\<lambda>c. c \<noteq> CHR '','') s, drop 1 (dropWhile (\<lambda>c. c \<noteq> CHR '','') s))"

text \<open>
  \<^verbatim>\<open>description.split(None, 1)\<close>: the first word and, when something other than white
  space follows it, the rest of the string from there.
\<close>

definition split_first_word :: "string \<Rightarrow> string list" where
  "split_first_word s =
     (let d = dropWhile is_space s;
          w = takeWhile (\<lambda>c. \<not> is_space c) d;
          r = dropWhile is_space (dropWhile (\<lambda>c. \<not> is_space c) d)
      in if w = [] then [] else if r = [] then [w] else [w, r])"

definition extract_type_spec :: "cell \<Rightarrow> cell \<Rightarrow> string \<times> string" where
  "extract_type_spec description size_val =
     (if \<not> truthy description then ([], [])
      else (let d = strip (str description)
            in if contains d '',''
               then (case split_comma d of (p0, p1) \<Rightarrow> (upper (strip p0), strip p1))
               else (let parts = split_first_word d
                     in (if parts \<noteq> [] then upper (strip (hd parts)) else [],
                         if 1 < length parts then strip (parts ! 1) else []))))"

definition is_data_row :: "cell list \<Rightarrow> rfq_map \<Rightarrow> bool" where
  "is_data_row row rm \<longleftrightarrow>
     (case map_of rm ''item_num'' of
        None \<Rightarrow> False
      | Some item_col \<Rightarrow>
          if length row \<le> item_col then False
          else (let val = row ! item_col
                in if val = CNone then False
                   else (let s = strip (str val) in s \<noteq> [] \<and> length s < 20)))"

text \<open>
  \<^verbatim>\<open>float(val)\<close>: the number a scalar carries; on a string, the built-in parser, which
  is the parameter \<open>pf\<close> (\<open>None\<close> when it raises). The result of \<^verbatim>\<open>_safe_float\<close> is
  \<^verbatim>\<open>None\<close> only when both attempts raise: an infinity or not-a-number is returned as
  it is.
\<close>

fun float_of :: "(string \<Rightarrow> pyfloat option) \<Rightarrow> cell \<Rightarrow> pyfloat option" where
  "float_of pf CNone = None"
| "float_of pf (CStr s) = pf s"
| "float_of pf (CObj s b f) = f"

definition safe_float :: "(string \<Rightarrow> pyfloat option) \<Rightarrow> cell \<Rightarrow> pyfloat option" where
  "safe_float pf val =
     (if val = CNone then None
      else (case float_of pf val of
              Some x \<Rightarrow> Some x
            | None \<Rightarrow> pf (strip (replace (CHR ''$'') [] (replace (CHR '','') [] (str val))))))"

record bid =
  unit_price :: "pyfloat option"
  ext_price :: "pyfloat option"

text \<open>
  The item dictionary. The keys \<^verbatim>\<open>specification\<close>, \<^verbatim>\<open>size\<close>, \<^verbatim>\<open>unit\<close> and \<^verbatim>\<open>quantity\<close>
  are the fields \<open>item_spec\<close>, \<open>item_size\<close>, \<open>item_unit\<close> and \<open>item_quantity\<close>.
\<close>

record parsed_item =
  item_number :: string
  item_type :: string
  item_spec :: string
  item_size :: "string option"
  item_unit :: "string option"
  item_quantity :: "pyfloat option"
  bids :: "(string \<times> bid) list"

text \<open>The local function \<^verbatim>\<open>_cell\<close> of the row loop.\<close>

definition cell_at :: "rfq_map \<Rightarrow> cell list \<Rightarrow> string \<Rightarrow> cell" where
  "cell_at rm row col_key =
     (case map_of rm col_key of
        Some col \<Rightarrow> if col < length row then row ! col else CNone
      | None \<Rightarrow> CNone)"

definition price_at :: "(string \<Rightarrow> pyfloat option) \<Rightarrow> cell list \<Rightarrow> nat option \<Rightarrow> pyfloat option" where
  "price_at pf row col =
     (case col of
        Some c \<Rightarrow> if c < length row then safe_float pf (row ! c) else None
      | None \<Rightarrow> None)"

definition row_bids :: "(string \<Rightarrow> pyfloat option) \<Rightarrow> bidder_map \<Rightarrow> cell list \<Rightarrow> (string \<times> bid) list" where
  "row_bids pf bm row =
     fold (\<lambda>(bidder_name, cols) bs.
             AList.update bidder_name
               \<lparr>unit_price = price_at pf row (map_of cols ''unit_price''),
                ext_price = price_at pf row (map_of cols ''ext_price'')\<rparr> bs)
       bm []"

definition make_item :: "(string \<Rightarrow> pyfloat option) \<Rightarrow> rfq_map \<Rightarrow> bidder_map \<Rightarrow> cell list \<Rightarrow> parsed_item" where
  "make_item pf rm bm row =
     (let raw_desc = cell_at rm row ''description'';
          raw_size = cell_at rm row ''size'';
          raw_unit = cell_at rm row ''unit'';
          raw_qty = cell_at rm row ''quantity'';
          raw_item = cell_at rm row ''item_num'';
          ts = extract_type_spec raw_desc raw_size
      in \<lparr>item_number = (if truthy raw_item then strip (str raw_item) else []),
          item_type = fst ts,
          item_spec = snd ts,
          item_size = (if truthy raw_size then Some (strip (str raw_size)) else None),
          item_unit = (if truthy raw_unit then Some (upper (strip (str raw_unit))) else None),
          item_quantity = safe_float pf raw_qty,
          bids = row_bids pf bm row\<rparr>)"

section \<open>The parser's entry point\<close>

text \<open>
  A worksheet as the parser sees it: its title, the \<^verbatim>\<open>max_row\<close> the library reports,
  and the rows \<^verbatim>\<open>iter_rows(values_only=True)\<close> yields. A workbook is the list of its
  sheets in the order of \<^verbatim>\<open>sheetnames\<close>.
\<close>

record worksheet =
  title :: string
  max_row :: nat
  sheet_rows :: "cell list list"

type_synonym workbook = "worksheet list"

datatype py_exn = KeyError | IndexError

definition wb_get :: "workbook \<Rightarrow> string \<Rightarrow> py_exn + worksheet" where
  "wb_get wb sn = (case find (\<lambda>s. title s = sn) wb of None \<Rightarrow> Inl KeyError | Some s \<Rightarrow> Inr s)"

definition skip_keywords :: "string list" where
  "skip_keywords = [''dashboard'', ''terms'', ''condition'', ''sheet2'', ''alternative'']"

text \<open>\<^verbatim>\<open>any(k in sn.lower() for k in skip_keywords)\<close>\<close>

definition has_skip_keyword :: "string \<Rightarrow> bool" where
  "has_skip_keyword sn \<longleftrightarrow> list_ex (\<lambda>k. contains (lower sn) k) skip_keywords"

text \<open>One sheet name of the selection loop, on the state \<open>(best, best_rows)\<close>.\<close>

definition pick_step :: "workbook \<Rightarrow> string \<Rightarrow> string option \<times> nat \<Rightarrow> string option \<times> nat" where
  "pick_step wb sn st =
     (if has_skip_keyword sn then st
      else (case wb_get wb sn of
              Inl e \<Rightarrow> st
            | Inr s \<Rightarrow> if snd st < max_row s then (Some sn, max_row s) else st))"

definition pick_sheet :: "workbook \<Rightarrow> py_exn + string" where
  "pick_sheet wb =
     (case fst (fold (pick_step wb) (map title wb) (None, 0)) of
        Some best \<Rightarrow> Inr best
      | None \<Rightarrow> (case wb of [] \<Rightarrow> Inl IndexError | s # ss \<Rightarrow> Inr (title s)))"

record parsed_rfq =
  format :: string
  sheet :: string
  bidders :: "string list"
  items :: "parsed_item list"
  ambiguities :: "string list"
  rfq_map :: rfq_map

text \<open>
  What \<^verbatim>\<open>parse_excel\<close> returns: the error dictionary (message, sheet name) or the
  parsed workbook.
\<close>

datatype parse_result = Error string string | Parsed parsed_rfq

definition parse_sheet :: "(string \<Rightarrow> pyfloat option) \<Rightarrow> string \<Rightarrow> cell list list \<Rightarrow> parse_result" where
  "parse_sheet pf sheet_name rows =
     (if rows = [] then Error ''Sheet is empty'' sheet_name
      else (case find_header_row rows of
              None \<Rightarrow> Error ''Could not locate column header row'' sheet_name
            | Some (header_idx, header_cols) \<Rightarrow>
                (let b = detect_format_b header_cols;
                     fmt = (if b then ''B'' else ''AC'');
                     maps = (if b then parse_format_b rows header_idx header_cols
                             else parse_format_ac rows header_idx header_cols);
                     rm = fst maps;
                     bm = snd maps;
                     ambiguities =
                       (if bm = [] then [''No bidders detected automatically.''] else []) @
                       (if map_of rm ''item_num'' = None then [''Could not locate Item # column.''] else []) @
                       (if map_of rm ''description'' = None
                        then [''Could not locate Description column.''] else []);
                     items = map (make_item pf rm bm)
                               (filter (\<lambda>row. is_data_row row rm) (drop (header_idx + 1) rows))
                 in Parsed \<lparr>format = fmt, sheet = sheet_name, bidders = sort (map fst bm),
                            items = items, ambiguities = ambiguities, rfq_map = rm\<rparr>)))"

text \<open>
  \<open>wb\<close> is the workbook \<^verbatim>\<open>openpyxl.load_workbook\<close> returned. A sheet name that is
  \<^verbatim>\<open>None\<close> or empty is false in the source, and the sheet is then selected.
\<close>

definition select_sheet :: "workbook \<Rightarrow> string option \<Rightarrow> py_exn + string" where
  "select_sheet wb sheet_name =
     (case sheet_name of
        Some sn \<Rightarrow> if sn \<noteq> [] then Inr sn else pick_sheet wb
      | None \<Rightarrow> pick_sheet wb)"

definition parse_excel :: "(string \<Rightarrow> pyfloat option) \<Rightarrow> workbook \<Rightarrow> string option \<Rightarrow> py_exn + parse_result" where
  "parse_excel pf wb sheet_name =
     (case select_sheet wb sheet_name of
        Inl e \<Rightarrow> Inl e
      | Inr sn \<Rightarrow>
          (case wb_get wb sn of
             Inl e \<Rightarrow> Inl e
           | Inr ws \<Rightarrow> Inr (parse_sheet pf sn (sheet_rows ws))))"

section \<open>Loading a parsed workbook into the store\<close>

text \<open>
  The tables \<^verbatim>\<open>rfqs\<close>, \<^verbatim>\<open>rfq_items\<close>, \<^verbatim>\<open>bidders\<close> and \<^verbatim>\<open>bids\<close> as lists of rows in
  insertion order. The three \<^verbatim>\<open>AUTOINCREMENT\<close> keys take the successor of the largest
  key the table ever held, which the state keeps in \<open>seq_items\<close>, \<open>seq_bidders\<close> and
  \<open>seq_bids\<close>.

  A \<^verbatim>\<open>REAL\<close> column holds a finite number, an infinity or \<^verbatim>\<open>NULL\<close>: SQLite stores
  a not-a-number that is bound to a parameter as \<^verbatim>\<open>NULL\<close>. \<open>sql_real\<close> is the value a
  column takes when the Python value \<open>v\<close> is bound to it.
\<close>

fun sql_real :: "pyfloat option \<Rightarrow> pyfloat option" where
  "sql_real None = None"
| "sql_real (Some NaN) = None"
| "sql_real (Some x) = Some x"

record rfq_row =
  r_rfq_id :: string
  r_creator :: "string option"
  r_station :: "string option"
  r_project :: "string option"
  r_rfq_date :: "string option"
  r_source_file :: "string option"
  r_sheet_name :: "string option"
  r_is_potential :: nat
  r_notes :: "string option"

record item_row =
  i_id :: nat
  i_rfq_id :: string
  i_item_number :: string
  i_item_type :: string
  i_specification :: string
  i_size :: "string option"
  i_unit :: "string option"
  i_quantity :: "pyfloat option"

record bid_row =
  b_id :: nat
  b_rfq_id :: string
  b_item_id :: nat
  b_bidder_id :: nat
  b_unit_price :: "pyfloat option"
  b_ext_price :: "pyfloat option"

record db =
  rfqs :: "rfq_row list"
  rfq_items :: "item_row list"
  bidders_tbl :: "(nat \<times> string) list"
  bids_tbl :: "bid_row list"
  seq_items :: nat
  seq_bidders :: nat
  seq_bids :: nat

text \<open>
  \<^verbatim>\<open>DELETE FROM rfqs WHERE rfq_id=?\<close> with foreign keys on. When the RFQ has a row, the
  row goes and \<^verbatim>\<open>ON DELETE CASCADE\<close> takes with it the items and bids that refer to the
  RFQ and the bids that refer to one of these items. When the RFQ has no row, nothing is
  deleted.
\<close>

definition delete_rfq_rows :: "string \<Rightarrow> db \<Rightarrow> db" where
  "delete_rfq_rows rfq_id d =
     (if list_ex (\<lambda>r. r_rfq_id r = rfq_id) (rfqs d)
      then d\<lparr>rfqs := filter (\<lambda>r. r_rfq_id r \<noteq> rfq_id) (rfqs d),
             rfq_items := filter (\<lambda>i. i_rfq_id i \<noteq> rfq_id) (rfq_items d),
             bids_tbl := filter (\<lambda>b. b_rfq_id b \<noteq> rfq_id \<and>
                                       b_item_id b \<notin> set (map i_id (filter (\<lambda>i. i_rfq_id i = rfq_id)
                                                                       (rfq_items d))))
                           (bids_tbl d)\<rparr>
      else d)"

definition get_or_create_bidder :: "string \<Rightarrow> db \<Rightarrow> nat \<times> db" where
  "get_or_create_bidder name d =
     (case find (\<lambda>(i, n). n = name) (bidders_tbl d) of
        Some (i, n) \<Rightarrow> (i, d)
      | None \<Rightarrow>
          (let i = seq_bidders d + 1
           in (i, d\<lparr>bidders_tbl := bidders_tbl d @ [(i, name)], seq_bidders := i\<rparr>)))"

text \<open>One entry of \<^verbatim>\<open>item.get("bids", {}).items()\<close>, with the \<^verbatim>\<open>continue\<close> of the source.\<close>

definition load_bid :: "string \<Rightarrow> nat \<Rightarrow> string \<times> bid \<Rightarrow> db \<Rightarrow> db" where
  "load_bid rfq_id item_id nb d =
     (case nb of (bidder_name, price_data) \<Rightarrow>
        (let up = unit_price price_data;
             ep = ext_price price_data
         in if up = None \<and> ep = None then d
            else (case get_or_create_bidder bidder_name d of (bidder_id, d1) \<Rightarrow>
                    d1\<lparr>bids_tbl := bids_tbl d1 @
                          [\<lparr>b_id = seq_bids d1 + 1, b_rfq_id = rfq_id, b_item_id = item_id,
                            b_bidder_id = bidder_id, b_unit_price = sql_real up,
                            b_ext_price = sql_real ep\<rparr>],
                        seq_bids := seq_bids d1 + 1\<rparr>)))"

definition load_item :: "string \<Rightarrow> parsed_item \<Rightarrow> db \<Rightarrow> db" where
  "load_item rfq_id item d =
     (let item_id = seq_items d + 1;
          d1 = d\<lparr>rfq_items := rfq_items d @
                    [\<lparr>i_id = item_id, i_rfq_id = rfq_id, i_item_number = item_number item,
                      i_item_type = item_type item, i_specification = item_spec item,
                      i_size = item_size item, i_unit = item_unit item,
                      i_quantity = sql_real (item_quantity item)\<rparr>],
                  seq_items := item_id\<rparr>
      in fold (load_bid rfq_id item_id) (bids item) d1)"

text \<open>\<^verbatim>\<open>parsed_data.get("items", [])\<close>: the error dictionary has no items.\<close>

fun result_items :: "parse_result \<Rightarrow> parsed_item list" where
  "result_items (Error msg sn) = []"
| "result_items (Parsed p) = items p"

definition load_parsed_rfq ::
  "string \<Rightarrow> string option \<Rightarrow> string option \<Rightarrow> string option \<Rightarrow> string option \<Rightarrow>
   string option \<Rightarrow> string option \<Rightarrow> parse_result \<Rightarrow> bool \<Rightarrow> string option \<Rightarrow> db \<Rightarrow> db" where
  "load_parsed_rfq rfq_id creator station project rfq_date source_file sheet_name
                   parsed_data is_potential notes d =
     (let d1 = delete_rfq_rows rfq_id d;
          d2 = d1\<lparr>rfqs := rfqs d1 @
                     [\<lparr>r_rfq_id = rfq_id, r_creator = creator, r_station = station,
                       r_project = project, r_rfq_date = rfq_date, r_source_file = source_file,
                       r_sheet_name = sheet_name, r_is_potential = (if is_potential then 1 else 0),
                       r_notes = notes\<rparr>]\<rparr>
      in fold (load_item rfq_id) (result_items parsed_data) d2)"

section \<open>Subset-award optimizer\<close>

text \<open>
  Prices and costs are floats in the source and rationals here. \<^verbatim>\<open>round(x, nd)\<close> rounds
  to the nearest multiple of \<open>10\<^sup>-\<^sup>n\<^sup>d\<close>, a tie going to the even one.
\<close>

definition round_half_even :: "rat \<Rightarrow> int" where
  "round_half_even x =
     (let f = \<lfloor>x\<rfloor>; d = x - of_int f
      in if d < 1 / 2 then f else if 1 / 2 < d then f + 1 else if even f then f else f + 1)"

definition py_round :: "rat \<Rightarrow> nat \<Rightarrow> rat" where
  "py_round x nd = of_int (round_half_even (x * 10 ^ nd)) / 10 ^ nd"

text \<open>A row of the bid query: the bid joined with its bidder's name and its item's quantity.\<close>

record bid_rec =
  q_item_id :: nat
  q_bidder :: string
  q_unit_price :: "rat option"
  q_ext_price :: "rat option"
  q_quantity :: "rat option"

type_synonym item_costs = "(nat \<times> (string \<times> rat) list) list"

text \<open>
  Step 3 of the source, one bid row: the effective cost is the extended price, else the
  unit price times the quantity (1 when the quantity is null or zero); a negative cost is
  not recorded.
\<close>

definition cost_step :: "bid_rec \<Rightarrow> item_costs \<Rightarrow> item_costs" where
  "cost_step b ic =
     (let iid = q_item_id b;
          ic1 = (if map_of ic iid = None then AList.update iid [] ic else ic);
          cost = (case q_ext_price b of
                    Some c \<Rightarrow> Some c
                  | None \<Rightarrow>
                      (case q_unit_price b of
                         None \<Rightarrow> None
                       | Some u \<Rightarrow>
                           (let qty = (case q_quantity b of
                                         None \<Rightarrow> 1
                                       | Some q \<Rightarrow> if q = 0 then 1 else q)
                            in Some (u * qty))))
      in case cost of
           None \<Rightarrow> ic1
         | Some c \<Rightarrow>
             if 0 \<le> c
             then AList.update iid
                    (AList.update (q_bidder b) c (case map_of ic1 iid of None \<Rightarrow> [] | Some d \<Rightarrow> d)) ic1
             else ic1)"

definition build_item_costs :: "bid_rec list \<Rightarrow> item_costs" where
  "build_item_costs bid_rows = fold cost_step bid_rows []"

text \<open>\<^verbatim>\<open>sorted({b["bidder"] for b in bids})\<close>\<close>

definition all_bidders_of :: "bid_rec list \<Rightarrow> string list" where
  "all_bidders_of bid_rows = sort (remdups (map q_bidder bid_rows))"

text \<open>
  \<^verbatim>\<open>item_costs[iid][bd]\<close> under the guard
  \<^verbatim>\<open>iid in item_costs and bd in item_costs[iid]\<close>.
\<close>

definition cost_of :: "item_costs \<Rightarrow> nat \<Rightarrow> string \<Rightarrow> rat option" where
  "cost_of ic iid bd = (case map_of ic iid of None \<Rightarrow> None | Some d \<Rightarrow> map_of d bd)"

text \<open>The values of \<^verbatim>\<open>costs_here\<close> for one item and one bidder subset.\<close>

definition costs_here :: "item_costs \<Rightarrow> string list \<Rightarrow> nat \<Rightarrow> rat list" where
  "costs_here ic bidder_set iid = List.map_filter (cost_of ic iid) bidder_set"

text \<open>One item of the loop of \<^verbatim>\<open>eval_subset\<close>, on \<open>(tot, covered, uncovered)\<close> for the source's \<^verbatim>\<open>total\<close>, \<^verbatim>\<open>covered\<close> and \<^verbatim>\<open>uncovered\<close>.\<close>

definition eval_step ::
  "item_costs \<Rightarrow> string list \<Rightarrow> nat \<Rightarrow> rat \<times> nat \<times> nat list \<Rightarrow> rat \<times> nat \<times> nat list" where
  "eval_step ic bidder_set iid st =
     (case st of (tot, covered, uncovered) \<Rightarrow>
        (let cs = costs_here ic bidder_set iid
         in if cs \<noteq> [] then (tot + min_list cs, covered + 1, uncovered)
            else (tot, covered, uncovered @ [iid])))"

definition eval_subset :: "item_costs \<Rightarrow> nat list \<Rightarrow> string list \<Rightarrow> rat \<times> nat \<times> nat list" where
  "eval_subset ic item_ids bidder_set = fold (eval_step ic bidder_set) item_ids (0, 0, [])"

text \<open>
  \<^verbatim>\<open>itertools.combinations(xs, k)\<close>: the sublists of \<open>xs\<close> of length \<open>k\<close>, those with the
  first element first.
\<close>

fun combinations :: "'a list \<Rightarrow> nat \<Rightarrow> 'a list list" where
  "combinations xs 0 = [[]]"
| "combinations [] (Suc k) = []"
| "combinations (x # xs) (Suc k) = map ((#) x) (combinations xs k) @ combinations xs (Suc k)"

text \<open>
  The inner loop of the source, one combination, on
  \<open>(best_cost, best_subset, best_covered, best_uncovered)\<close>.
\<close>

type_synonym best = "rat option \<times> string list option \<times> nat \<times> nat list"

definition best_step :: "item_costs \<Rightarrow> nat list \<Rightarrow> string list \<Rightarrow> best \<Rightarrow> best" where
  "best_step ic item_ids combo st =
     (case st of (best_cost, best_subset, best_covered, best_uncovered) \<Rightarrow>
        (case eval_subset ic item_ids combo of (cost, covered, uncovered) \<Rightarrow>
           (case best_cost of
              None \<Rightarrow> (Some cost, Some combo, covered, uncovered)
            | Some bc \<Rightarrow>
                if cost < bc then (Some cost, Some combo, covered, uncovered)
                else st)))"

definition best_of_size :: "item_costs \<Rightarrow> nat list \<Rightarrow> string list \<Rightarrow> nat \<Rightarrow> best" where
  "best_of_size ic item_ids all_bidders k =
     fold (best_step ic item_ids) (combinations all_bidders k) (None, None, 0, [])"

text \<open>
  An entry of \<^verbatim>\<open>results\<close>. The per-item breakdown of the source is computed from
  \<open>best_subset\<close> after the search and is left out.
\<close>

record size_result =
  size_k :: nat
  best_subset :: "string list option"
  total_cost :: "rat option"
  items_covered :: nat
  items_total :: nat
  uncovered_count :: nat
  savings_vs_k1_pct :: "rat option"
  savings_vs_prev_pct :: "rat option"

text \<open>
  The body of the loop over \<open>k\<close>, on \<open>(results, baseline_cost)\<close>. A cost that is null or
  zero is false in the source. For \<open>k\<close> from 1 to the number of bidders there is a
  combination, so \<open>best_cost\<close> is never null where the source computes with it.
\<close>

definition size_step ::
  "item_costs \<Rightarrow> nat list \<Rightarrow> string list \<Rightarrow> nat \<Rightarrow> size_result list \<times> rat option \<Rightarrow>
   size_result list \<times> rat option" where
  "size_step ic item_ids all_bidders kk st =
     (case st of (results, baseline0) \<Rightarrow>
        (case best_of_size ic item_ids all_bidders kk of
           (best_cost, bsubset, best_covered, best_uncovered) \<Rightarrow>
           (let baseline_cost = (if kk = 1 then best_cost else baseline0);
                savings_vs_single =
                  (case (baseline_cost, best_cost) of
                     (Some bl, Some bc) \<Rightarrow>
                       if bl \<noteq> 0 \<and> 0 < bl \<and> 1 < kk
                       then Some (py_round ((bl - bc) / bl * 100) 2) else None
                   | _ \<Rightarrow> None);
                savings_vs_prev =
                  (if results = [] then None
                   else (case (total_cost (last results), best_cost) of
                           (Some pc, Some bc) \<Rightarrow>
                             if pc \<noteq> 0 then Some (py_round ((pc - bc) / pc * 100) 2) else None
                         | _ \<Rightarrow> None))
            in (results @
                  [\<lparr>size_k = kk, best_subset = bsubset,
                    total_cost = map_option (\<lambda>c. py_round c 2) best_cost,
                    items_covered = best_covered, items_total = length item_ids,
                    uncovered_count = length best_uncovered,
                    savings_vs_k1_pct = savings_vs_single,
                    savings_vs_prev_pct = savings_vs_prev\<rparr>],
                baseline_cost))))"

definition subset_results :: "item_costs \<Rightarrow> nat list \<Rightarrow> string list \<Rightarrow> size_result list" where
  "subset_results ic item_ids all_bidders =
     fst (fold (size_step ic item_ids all_bidders) [1..<Suc (length all_bidders)] ([], None))"

text \<open>
  The analysis from the two query results: the ids of the RFQ's items and its bid rows.
  Without items the source answers with the error and status 404.
\<close>

definition subset_enum :: "nat list \<Rightarrow> bid_rec list \<Rightarrow> size_result list option" where
  "subset_enum item_ids bid_rows =
     (if item_ids = [] then None
      else Some (subset_results (build_item_costs bid_rows) item_ids (all_bidders_of bid_rows)))"

section \<open>Historical estimator\<close>

text \<open>
  \<^verbatim>\<open>re.split(r"[\s,/\(\)\-]+", s)\<close>: the pieces between the maximal runs of separator
  characters, the empty piece before a leading and after a trailing run included.
  \<open>in_sep\<close> tells that the character before was a separator; the piece being read is
  kept reversed in \<open>cur\<close>.
\<close>

definition is_spec_sep :: "char \<Rightarrow> bool" where
  "is_spec_sep c \<longleftrightarrow> is_space c \<or> c \<in> set '',/()-''"

fun re_split_acc :: "bool \<Rightarrow> string \<Rightarrow> string \<Rightarrow> string list" where
  "re_split_acc in_sep cur [] = [rev cur]"
| "re_split_acc in_sep cur (c # cs) =
     (if is_spec_sep c
      then (if in_sep then re_split_acc True [] cs else rev cur # re_split_acc True [] cs)
      else re_split_acc False (c # cur) cs)"

definition tokenise_spec :: "string \<Rightarrow> string set" where
  "tokenise_spec spec =
     (if spec = [] then {}
      else set (filter (\<lambda>t. 2 \<le> length t \<and>
                             t \<notin> set [''AND'', ''OR'', ''THE'', ''TO'', ''OF'', ''IN'', ''WITH''])
                  (re_split_acc False [] (upper spec))))"

definition jaccard :: "string set \<Rightarrow> string set \<Rightarrow> rat" where
  "jaccard a b =
     (if a = {} \<or> b = {} then 0
      else (let inter = card (a \<inter> b); union = card (a \<union> b)
            in if union \<noteq> 0 then rat_of_nat inter / rat_of_nat union else 0))"

text \<open>
  A row of the query for historical bids (bids of other, non-potential RFQs with a unit
  price above zero) and a row of the target RFQ's items.
\<close>

record hist_bid =
  h_item_type :: "string option"
  h_specification :: "string option"
  h_size :: "string option"
  h_rfq_id :: string
  h_rfq_date :: "string option"
  h_bidder :: string
  h_unit_price :: rat

record target_item =
  t_item_number :: "string option"
  t_item_type :: "string option"
  t_specification :: "string option"
  t_size :: "string option"
  t_unit :: "string option"
  t_quantity :: "rat option"

datatype confidence = HIGH | MEDIUM | LOW | NONE

record match_detail =
  m_rfq_id :: string
  m_rfq_date :: "string option"
  m_bidder :: string
  m_specification :: "string option"
  m_size :: "string option"
  m_unit_price :: rat
  m_match_score :: rat

record estimate =
  e_item_number :: "string option"
  e_item_type :: "string option"
  e_specification :: string
  e_size :: "string option"
  e_unit :: "string option"
  e_quantity :: "rat option"
  e_confidence :: confidence
  e_match_score :: rat
  e_matches :: "match_detail list"
  est_unit_min :: "rat option"
  est_unit_mean :: "rat option"
  est_unit_max :: "rat option"
  est_ext_mean :: "rat option"
  bidders_seen :: "string list"
  source_rfqs :: "string list"

text \<open>\<^verbatim>\<open>max(xs)\<close> on a list that is not empty, as \<open>min_list\<close> is \<^verbatim>\<open>min(xs)\<close>.\<close>

fun max_list :: "rat list \<Rightarrow> rat" where
  "max_list (x # xs) = (case xs of [] \<Rightarrow> x | _ \<Rightarrow> max x (max_list xs))"

text \<open>\<^verbatim>\<open>x or ""\<close> on a text column.\<close>

definition or_empty :: "string option \<Rightarrow> string" where
  "or_empty x = (case x of None \<Rightarrow> [] | Some s \<Rightarrow> s)"

text \<open>The score of one candidate, with the bonus for equal sizes.\<close>

definition score_candidate :: "string set \<Rightarrow> string \<Rightarrow> hist_bid \<Rightarrow> rat" where
  "score_candidate ttoks tsize c =
     (let ctoks = tokenise_spec (or_empty (h_specification c));
          score = jaccard ttoks ctoks;
          csize = upper (strip (or_empty (h_size c)))
      in if tsize \<noteq> [] \<and> csize \<noteq> [] \<and> tsize = csize then min 1 (score + 1 / 5) else score)"

definition scored_candidates :: "string set \<Rightarrow> string \<Rightarrow> hist_bid list \<Rightarrow> (rat \<times> hist_bid) list" where
  "scored_candidates ttoks tsize candidates =
     filter (\<lambda>(score, c). 1 / 4 \<le> score) (map (\<lambda>c. (score_candidate ttoks tsize c, c)) candidates)"

text \<open>The entry appended when nothing matches.\<close>

definition none_estimate :: "target_item \<Rightarrow> estimate" where
  "none_estimate titem =
     \<lparr>e_item_number = t_item_number titem, e_item_type = t_item_type titem,
      e_specification = or_empty (t_specification titem), e_size = t_size titem,
      e_unit = t_unit titem, e_quantity = t_quantity titem,
      e_confidence = NONE, e_match_score = 0, e_matches = [],
      est_unit_min = None, est_unit_mean = None, est_unit_max = None, est_ext_mean = None,
      bidders_seen = [], source_rfqs = []\<rparr>"

text \<open>
  The loop over the sorted matches that drops a repeated (RFQ, bidder, specification):
  the matches kept, in order, with their scores.
\<close>

fun dedup_matches ::
  "(string \<times> string \<times> string option) list \<Rightarrow> (rat \<times> hist_bid) list \<Rightarrow> (rat \<times> hist_bid) list" where
  "dedup_matches seen_keys [] = []"
| "dedup_matches seen_keys ((score, c) # rest) =
     (let key = (h_rfq_id c, h_bidder c, h_specification c)
      in if key \<in> set seen_keys then dedup_matches seen_keys rest
         else (score, c) # dedup_matches (key # seen_keys) rest)"

definition confidence_of :: "rat \<Rightarrow> confidence" where
  "confidence_of best_score =
     (if 11 / 20 \<le> best_score then HIGH else if 3 / 10 \<le> best_score then MEDIUM else LOW)"

text \<open>
  One target item. The result is the entry appended to \<^verbatim>\<open>estimates\<close>, if any, and
  whether \<^verbatim>\<open>uncovered\<close> is incremented. The scores are floats in the source and
  rationals here, the thresholds 0.25, 0.30 and 0.55 and the bonus 0.20 their decimal
  values.
\<close>

definition estimate_item :: "hist_bid list \<Rightarrow> target_item \<Rightarrow> estimate option \<times> bool" where
  "estimate_item hist_bids titem =
     (let ttype = t_item_type titem;
          tspec = or_empty (t_specification titem);
          tsize = upper (strip (or_empty (t_size titem)));
          ttoks = tokenise_spec tspec;
          candidates = filter (\<lambda>row. h_item_type row = ttype) hist_bids
      in if candidates = [] then (Some (none_estimate titem), True)
         else (let scored = scored_candidates ttoks tsize candidates
               in if scored = [] then (Some (none_estimate titem), True)
                  else (let sorted_scored = sort_key (\<lambda>(score, c). - score) scored;
                            best_score = fst (hd sorted_scored);
                            kept = dedup_matches [] sorted_scored;
                            prices_raw = map (\<lambda>(score, c). h_unit_price c) kept
                        in if prices_raw = [] then (None, True)
                           else (let total_w = sum_list (map fst kept);
                                     wmean = sum_list (map (\<lambda>(score, c). h_unit_price c * score) kept)
                                             / total_w;
                                     qty = (case t_quantity titem of None \<Rightarrow> 0 | Some q \<Rightarrow> q)
                                 in (Some
                                      \<lparr>e_item_number = t_item_number titem, e_item_type = ttype,
                                       e_specification = tspec, e_size = t_size titem,
                                       e_unit = t_unit titem, e_quantity = Some qty,
                                       e_confidence = confidence_of best_score,
                                       e_match_score = py_round best_score 3,
                                       e_matches =
                                         take 8 (map (\<lambda>(score, c).
                                                   \<lparr>m_rfq_id = h_rfq_id c, m_rfq_date = h_rfq_date c,
                                                    m_bidder = h_bidder c,
                                                    m_specification = h_specification c,
                                                    m_size = h_size c,
                                                    m_unit_price = py_round (h_unit_price c) 4,
                                                    m_match_score = py_round score 3\<rparr>) kept),
                                       est_unit_min = Some (py_round (min_list prices_raw) 4),
                                       est_unit_mean = Some (py_round wmean 4),
                                       est_unit_max = Some (py_round (max_list prices_raw) 4),
                                       est_ext_mean =
                                         (if qty \<noteq> 0 then Some (py_round (wmean * qty) 2) else None),
                                       bidders_seen = sort (remdups (map (\<lambda>(score, c). h_bidder c) kept)),
                                       source_rfqs = sort (remdups (map (\<lambda>(score, c). h_rfq_id c) kept))\<rparr>,
                                     False)))))"

text \<open>
  The entries of \<^verbatim>\<open>estimates\<close> for the items of the target RFQ, in order. The source
  answers with an error and status 404 when the RFQ or its items are missing; the sums
  over the entries that it returns beside them are not modelled.
\<close>

definition estimate_rfq :: "bool \<Rightarrow> target_item list \<Rightarrow> hist_bid list \<Rightarrow> estimate list option" where
  "estimate_rfq rfq_found target_items hist_bids =
     (if \<not> rfq_found \<or> target_items = [] then None
      else Some (List.map_filter (\<lambda>titem. fst (estimate_item hist_bids titem)) target_items))"

section \<open>The classifier's rule in the words of the specification\<close>

text \<open>
  This definition follows the specification, not the source: a header cell counts when
  its text, with underscores read as separators and \<^verbatim>\<open>>\<close> as a dot, ends in a
  recognised two-word price ending that has at least one word before it. It is the
  yardstick the source's \<open>detect_format_b\<close> is compared with.
\<close>

definition spec_compound_cell :: "cell \<Rightarrow> bool" where
  "spec_compound_cell h \<longleftrightarrow>
     (let ws = split_ws (replace (CHR ''_'') '' '' (replace (CHR ''>'') ''.'' (norm_cell h)))
      in 3 \<le> length ws \<and> join_sp (last_two ws) \<in> set PRICE_ENDINGS_2W)"

section \<open>Names for the statements about bid maps\<close>

text \<open>
  The pair \<^verbatim>\<open>rfq_map, bidder_map\<close> that \<open>parse_sheet\<close> computes from the header row it
  found, and the entry its row loop writes into \<^verbatim>\<open>bids\<close> for one entry of the bidder map
  on one row.
\<close>

definition col_maps :: "cell list list \<Rightarrow> nat \<Rightarrow> cell list \<Rightarrow> rfq_map \<times> bidder_map" where
  "col_maps rows header_idx header_cols =
     (if detect_format_b header_cols then parse_format_b rows header_idx header_cols
      else parse_format_ac rows header_idx header_cols)"

definition bid_entry ::
  "(string \<Rightarrow> pyfloat option) \<Rightarrow> cell list \<Rightarrow> string \<times> (string \<times> nat) list \<Rightarrow> string \<times> bid" where
  "bid_entry pf row nc =
     (fst nc, \<lparr>unit_price = price_at pf row (map_of (snd nc) ''unit_price''),
               ext_price = price_at pf row (map_of (snd nc) ''ext_price'')\<rparr>)"

section \<open>Predicates of the statements about the store\<close>

text \<open>
  An entry of an item's bid map passes the test of the loader: one of its two values is
  not \<^verbatim>\<open>None\<close>.
\<close>

definition quoted :: "string \<times> bid \<Rightarrow> bool" where
  "quoted nb \<longleftrightarrow> unit_price (snd nb) \<noteq> None \<or> ext_price (snd nb) \<noteq> None"

text \<open>
  The bid row \<open>r\<close> stores the entry \<open>nb\<close> of the bid map of the item \<open>item_id\<close> of the RFQ:
  its bidder id is the id of a row of the bidder table with the entry's name, and its two
  prices are the entry's two values as SQLite stores them.
\<close>

definition stored_as :: "db \<Rightarrow> string \<Rightarrow> nat \<Rightarrow> bid_row \<Rightarrow> string \<times> bid \<Rightarrow> bool" where
  "stored_as d rfq_id item_id r nb \<longleftrightarrow>
     (b_bidder_id r, fst nb) \<in> set (bidders_tbl d) \<and> b_rfq_id r = rfq_id \<and> b_item_id r = item_id \<and>
     b_unit_price r = sql_real (unit_price (snd nb)) \<and>
     b_ext_price r = sql_real (ext_price (snd nb))"

text \<open>The item row \<open>ir\<close> stores the parsed item \<open>it\<close> of the RFQ under the id \<open>item_id\<close>.\<close>

definition item_stored_as :: "string \<Rightarrow> item_row \<Rightarrow> nat \<times> parsed_item \<Rightarrow> bool" where
  "item_stored_as rfq_id ir jt \<longleftrightarrow>
     ir = \<lparr>i_id = fst jt, i_rfq_id = rfq_id, i_item_number = item_number (snd jt),
           i_item_type = item_type (snd jt), i_specification = item_spec (snd jt),
           i_size = item_size (snd jt), i_unit = item_unit (snd jt),
           i_quantity = sql_real (item_quantity (snd jt))\<rparr>"

text \<open>
  The store as its constraints keep it. Every item row and every bid row refers to an RFQ
  that has a row (\<^verbatim>\<open>REFERENCES rfqs(rfq_id)\<close>). In the bidder table ids are distinct (the
  primary key) and not above the counter, and names are distinct (\<^verbatim>\<open>UNIQUE\<close>): a pair of
  an id and a name in such a table determines each from the other.
\<close>

definition rfq_refs_ok :: "db \<Rightarrow> bool" where
  "rfq_refs_ok d \<longleftrightarrow>
     list_all (\<lambda>i. i_rfq_id i \<in> set (map r_rfq_id (rfqs d))) (rfq_items d) \<and>
     list_all (\<lambda>b. b_rfq_id b \<in> set (map r_rfq_id (rfqs d))) (bids_tbl d)"

definition bidders_wf :: "db \<Rightarrow> bool" where
  "bidders_wf d \<longleftrightarrow>
     distinct (map fst (bidders_tbl d)) \<and> distinct (map snd (bidders_tbl d)) \<and>
     list_all (\<lambda>i. i \<le> seq_bidders d) (map fst (bidders_tbl d))"

section \<open>Names for the statements about the estimator\<close>

text \<open>
  The score \<open>estimate_item\<close> gives a historical bid for a target item, and the list
  \<^verbatim>\<open>scored\<close> it builds for the item: the bids of the item's type that are retained, with
  their scores.
\<close>

definition score_for :: "target_item \<Rightarrow> hist_bid \<Rightarrow> rat" where
  "score_for titem c =
     score_candidate (tokenise_spec (or_empty (t_specification titem)))
       (upper (strip (or_empty (t_size titem)))) c"

definition scored_for :: "hist_bid list \<Rightarrow> target_item \<Rightarrow> (rat \<times> hist_bid) list" where
  "scored_for hist_bids titem =
     scored_candidates (tokenise_spec (or_empty (t_specification titem)))
       (upper (strip (or_empty (t_size titem))))
       (filter (\<lambda>row. h_item_type row = t_item_type titem) hist_bids)"

section \<open>Reading the bidder map\<close>

text \<open>\<^verbatim>\<open>bidder_map[name][role]\<close> when both keys are there.\<close>

definition bidder_col :: "bidder_map \<Rightarrow> string \<Rightarrow> string \<Rightarrow> nat option" where
  "bidder_col bm name role = (case map_of bm name of None \<Rightarrow> None | Some d \<Rightarrow> map_of d role)"

section \<open>Names for the statements about price columns\<close>

text \<open>
  The role the bidder-row extractor gives a header cell as a price column: a unit price
  synonym or an extended price synonym.
\<close>

definition price_role :: "cell \<Rightarrow> string option" where
  "price_role h =
     (if norm_cell h \<in> set UNIT_PRICE_SYNONYMS then Some ''unit_price''
      else if norm_cell h \<in> set EXT_PRICE_SYNONYMS then Some ''ext_price''
      else None)"

text \<open>
  The price columns of \<open>cr\<close> with role \<open>r\<close> that step 3 gives to the bidder \<open>n\<close>, in the
  order of the loop.
\<close>

definition assigned ::
  "(nat \<times> string) list \<Rightarrow> string \<Rightarrow> string \<Rightarrow> (nat \<times> string) list \<Rightarrow> (nat \<times> string) list" where
  "assigned names n r cr =
     filter (\<lambda>(c, r'). r' = r \<and> bidder_for_col names c = Some n \<and> n \<noteq> []) cr"

text \<open>
  The recognised price columns of role \<open>r\<close> under a header whose owner, the nearest bidder
  at or to the left in the bidder-name row found above the header, is \<open>n\<close>.
\<close>

definition owned_cols :: "cell list list \<Rightarrow> nat \<Rightarrow> cell list \<Rightarrow> string \<Rightarrow> string \<Rightarrow> nat set" where
  "owned_cols rows header_idx header_cols n r =
     fst ` set (filter (\<lambda>(c, r'). r' = r \<and>
                            bidder_for_col (find_bidder_names_above rows header_idx) c = Some n)
                  (snd (header_roles header_cols)))"

section \<open>Names for the statements about the optimizer\<close>

text \<open>
  What one item adds to the total of a bidder subset (nothing when no member of the subset
  quoted it), and the total \<^verbatim>\<open>eval_subset\<close> returns for the subset.
\<close>

definition item_min :: "item_costs \<Rightarrow> string list \<Rightarrow> nat \<Rightarrow> rat" where
  "item_min ic bs iid = (if costs_here ic bs iid \<noteq> [] then min_list (costs_here ic bs iid) else 0)"

definition subset_cost :: "item_costs \<Rightarrow> nat list \<Rightarrow> string list \<Rightarrow> rat" where
  "subset_cost ic item_ids bs = fst (eval_subset ic item_ids bs)"

section \<open>Names for the statements about the synonym loops\<close>

text \<open>
  The text a synonym is turned into before it is compared, and the test of the two loops
  of the compound-header extractor on one synonym.
\<close>

definition unit_under :: "string \<Rightarrow> string" where
  "unit_under syn = replace (CHR '' '') ''_'' syn"

definition unit_hit :: "string \<Rightarrow> string \<Rightarrow> bool" where
  "unit_hit s_low syn \<longleftrightarrow>
     endswith s_low (CHR ''_'' # unit_under syn) \<or> endswith s_low (CHR ''_'' # syn)"

definition ext_under :: "string \<Rightarrow> string" where
  "ext_under syn = replace (CHR ''.'') [] (replace (CHR '' '') ''_'' syn)"

definition ext_hit :: "string \<Rightarrow> string \<Rightarrow> bool" where
  "ext_hit s_low syn \<longleftrightarrow>
     endswith (replace (CHR '' '') ''_'' (replace (CHR ''.'') [] s_low))
       (CHR ''_'' # replace (CHR ''.'') [] (ext_under syn))"

section \<open>Verified properties\<close>

subsection \<open>Header locator\<close>

lemma find_header_from_Some:
  "find_header_from k rs = Some (i, row) \<longleftrightarrow>
     (\<exists>j<length rs. i = k + j \<and> row = rs ! j \<and> is_header_row (rs ! j) \<and> (\<forall>m<j. \<not> is_header_row (rs ! m)))"
proof (induction rs arbitrary: k)
  case Nil
  then show ?case by simp
next
  case (Cons r rs)
  show ?case
  proof (cases "is_header_row r")
    case True
    have "(\<exists>j<length (r # rs). i = k + j \<and> row = (r # rs) ! j \<and> is_header_row ((r # rs) ! j) \<and> (\<forall>m<j. \<not> is_header_row ((r # rs) ! m)))
       \<longleftrightarrow> i = k \<and> row = r" (is "?L \<longleftrightarrow> ?R")
    proof
      assume ?L
      then obtain j where j: "i = k + j" "row = (r # rs) ! j" "\<forall>m<j. \<not> is_header_row ((r # rs) ! m)"
        by blast
      have "j = 0"
      proof (rule ccontr)
        assume "j \<noteq> 0"
        then have "0 < j" by simp
        with j(3) have "\<not> is_header_row ((r # rs) ! 0)" by blast
        with True show False by simp
      qed
      with j show ?R by simp
    next
      assume ?R
      with True show ?L by (intro exI[of _ 0]) simp
    qed
    with True show ?thesis by auto
  next
    case False
    have "(\<exists>j<length (r # rs). i = k + j \<and> row = (r # rs) ! j \<and> is_header_row ((r # rs) ! j) \<and> (\<forall>m<j. \<not> is_header_row ((r # rs) ! m)))
       \<longleftrightarrow> (\<exists>j<length rs. i = Suc k + j \<and> row = rs ! j \<and> is_header_row (rs ! j) \<and> (\<forall>m<j. \<not> is_header_row (rs ! m)))"
      (is "?L \<longleftrightarrow> ?R")
    proof
      assume ?L
      then obtain j where j: "j < length (r # rs)" "i = k + j" "row = (r # rs) ! j" "is_header_row ((r # rs) ! j)"
        "\<forall>m<j. \<not> is_header_row ((r # rs) ! m)" by blast
      from j(4) False obtain j' where j': "j = Suc j'" by (cases j) auto
      have "\<forall>m<j'. \<not> is_header_row (rs ! m)"
      proof (intro allI impI)
        fix m assume "m < j'"
        then have "Suc m < j" using j' by simp
        with j(5) have "\<not> is_header_row ((r # rs) ! Suc m)" by blast
        then show "\<not> is_header_row (rs ! m)" by simp
      qed
      with j j' show ?R by (intro exI[of _ j']) auto
    next
      assume ?R
      then obtain j where j: "j < length rs" "i = Suc k + j" "row = rs ! j" "is_header_row (rs ! j)"
        "\<forall>m<j. \<not> is_header_row (rs ! m)" by blast
      have "\<forall>m<Suc j. \<not> is_header_row ((r # rs) ! m)"
        using j(5) False by (auto simp: nth_Cons split: nat.splits)
      with j show ?L by (intro exI[of _ "Suc j"]) auto
    qed
    with False Cons.IH[of "Suc k"] show ?thesis by simp
  qed
qed

lemma find_header_from_None:
  "find_header_from k rs = None \<longleftrightarrow> \<not> list_ex is_header_row rs"
  by (induction rs arbitrary: k) auto


lemma parse_excel_selected:
  "select_sheet wb sheet_name = Inr sn \<Longrightarrow> wb_get wb sn = Inr ws \<Longrightarrow>
   parse_excel pf wb sheet_name = Inr (parse_sheet pf sn (sheet_rows ws))"
  by (simp add: parse_excel_def)

text \<open>
  C5. The header locator returns the first row among rows 0 to 14 that has a cell matching
  the item-number synonyms and a cell matching the description synonyms, with that row's
  values. When none of these rows qualifies, which includes the sheet without rows,
  \<open>parse_excel\<close> returns the error dictionary with the name of the sheet and nothing else.
\<close>

theorem header_row_first_or_error:
  "case find_header_row rows of
     Some (i, row) \<Rightarrow>
       i < 15 \<and> i < length rows \<and> row = rows ! i \<and> is_header_row (rows ! i) \<and>
       (\<forall>j<i. \<not> is_header_row (rows ! j))
   | None \<Rightarrow>
       (\<forall>j. j < 15 \<and> j < length rows \<longrightarrow> \<not> is_header_row (rows ! j)) \<and>
       (\<forall>pf wb sheet_name sn ws.
          select_sheet wb sheet_name = Inr sn \<and> wb_get wb sn = Inr ws \<and> sheet_rows ws = rows \<longrightarrow>
          parse_excel pf wb sheet_name =
            Inr (Error (if rows = [] then ''Sheet is empty''
                        else ''Could not locate column header row'') sn))"
proof (cases "find_header_row rows")
  case None
  then have "\<not> list_ex is_header_row (take 15 rows)"
    by (simp add: find_header_row_def find_header_from_None)
  then have nx: "\<forall>x \<in> set (take 15 rows). \<not> is_header_row x"
    by (simp add: list_ex_iff)
  have no: "\<forall>j. j < 15 \<and> j < length rows \<longrightarrow> \<not> is_header_row (rows ! j)"
  proof (intro allI impI)
    fix j assume j: "j < 15 \<and> j < length rows"
    then have "take 15 rows ! j \<in> set (take 15 rows)" by (intro nth_mem) simp
    with nx have "\<not> is_header_row (take 15 rows ! j)" by blast
    with j show "\<not> is_header_row (rows ! j)" by simp
  qed
  have "parse_sheet pf sn rows =
          Error (if rows = [] then ''Sheet is empty'' else ''Could not locate column header row'') sn"
    for pf sn
    using None by (simp add: parse_sheet_def)
  with no None show ?thesis
    by (auto simp: parse_excel_selected)
next
  case (Some p)
  obtain i row where p: "p = (i, row)" by (cases p)
  from Some p have "find_header_from 0 (take 15 rows) = Some (i, row)"
    by (simp add: find_header_row_def)
  then obtain j where j: "j < length (take 15 rows)" "i = j" "row = take 15 rows ! j"
      "is_header_row (take 15 rows ! j)" "\<forall>m<j. \<not> is_header_row (take 15 rows ! m)"
    unfolding find_header_from_Some by auto
  from j have "i < 15" "i < length rows" by auto
  moreover from j have "row = rows ! i" "is_header_row (rows ! i)" by auto
  moreover have "\<forall>m<i. \<not> is_header_row (rows ! m)"
  proof (intro allI impI)
    fix m assume "m < i"
    with j have "\<not> is_header_row (take 15 rows ! m)" and "m < 15" by auto
    then show "\<not> is_header_row (rows ! m)" by simp
  qed
  ultimately show ?thesis using Some p by simp
qed

theorem header_row_first_or_error_witness:
  "find_header_row [[CStr ''RFQ 12''], [CStr '' Item No. '', CObj ''7'' True (Some (Num 7)), CStr ''Desc'']]
     = Some (1, [CStr '' Item No. '', CObj ''7'' True (Some (Num 7)), CStr ''Desc''])
   \<and> parse_excel (\<lambda>s. None)
        [\<lparr>title = ''Notes'', max_row = 2, sheet_rows = [[CStr ''Contact''], [CStr ''ITEM #'', CNone]]\<rparr>]
        (Some ''Notes'')
     = Inr (Error ''Could not locate column header row'' ''Notes'')"
proof -
  have n: "find_header_row [[CStr ''Contact''], [CStr ''ITEM #'', CNone]] = None"
    by code_simp
  have s: "select_sheet [\<lparr>title = ''Notes'', max_row = 2, sheet_rows = [[CStr ''Contact''], [CStr ''ITEM #'', CNone]]\<rparr>] (Some ''Notes'') = Inr ''Notes''"
    by (simp add: select_sheet_def)
  have g: "wb_get [\<lparr>title = ''Notes'', max_row = 2, sheet_rows = [[CStr ''Contact''], [CStr ''ITEM #'', CNone]]\<rparr>] ''Notes''
            = Inr \<lparr>title = ''Notes'', max_row = 2, sheet_rows = [[CStr ''Contact''], [CStr ''ITEM #'', CNone]]\<rparr>"
    by (simp add: wb_get_def)
  have a: "find_header_row [[CStr ''RFQ 12''], [CStr '' Item No. '', CObj ''7'' True (Some (Num 7)), CStr ''Desc'']]
     = Some (1, [CStr '' Item No. '', CObj ''7'' True (Some (Num 7)), CStr ''Desc''])"
    by code_simp
  from header_row_first_or_error [of "[[CStr ''Contact''], [CStr ''ITEM #'', CNone]]"] n s g
  have "parse_excel (\<lambda>s. None)
        [\<lparr>title = ''Notes'', max_row = 2, sheet_rows = [[CStr ''Contact''], [CStr ''ITEM #'', CNone]]\<rparr>]
        (Some ''Notes'')
     = Inr (Error ''Could not locate column header row'' ''Notes'')"
    by simp
  with a show ?thesis by simp
qed

subsection \<open>Sheet selection\<close>

lemma wb_get_member:
  "distinct (map title wb) \<Longrightarrow> s \<in> set wb \<Longrightarrow> wb_get wb (title s) = Inr s"
proof (induction wb)
  case Nil
  then show ?case by simp
next
  case (Cons w wb)
  show ?case
  proof (cases "s = w")
    case True
    then show ?thesis by (simp add: wb_get_def)
  next
    case False
    with Cons.prems have s: "s \<in> set wb" and d: "distinct (map title wb)" and "title w \<notin> title ` set wb"
      by auto
    then have "title w \<noteq> title s" by auto
    with Cons.IH[OF d s] show ?thesis by (simp add: wb_get_def)
  qed
qed

lemma pick_fold:
  assumes "distinct (map title wb)" and "set ss \<subseteq> set wb"
      and "fold (pick_step wb) (map title ss) (b, n) = (b', n')"
  shows "n \<le> n' \<and> (\<forall>t \<in> set ss. \<not> has_skip_keyword (title t) \<longrightarrow> max_row t \<le> n') \<and>
         ((b', n') = (b, n) \<or>
          (\<exists>s \<in> set ss. \<not> has_skip_keyword (title s) \<and> b' = Some (title s) \<and> n' = max_row s \<and> n < n'))"
  using assms(2,3)
proof (induction ss arbitrary: b n)
  case Nil
  then show ?case by simp
next
  case (Cons s ss)
  from Cons.prems(1) have sin: "s \<in> set wb" and sub: "set ss \<subseteq> set wb" by auto
  have g: "wb_get wb (title s) = Inr s" using wb_get_member[OF assms(1) sin] .
  obtain b1 n1 where st: "pick_step wb (title s) (b, n) = (b1, n1)" by (cases "pick_step wb (title s) (b, n)")
  from Cons.prems(2) st have f: "fold (pick_step wb) (map title ss) (b1, n1) = (b', n')" by simp
  note IH = Cons.IH[OF sub f]
  show ?case
  proof (cases "has_skip_keyword (title s) \<or> \<not> n < max_row s")
    case True
    with st g have e: "b1 = b" "n1 = n" by (auto simp: pick_step_def split: if_splits)
    from True have "\<not> has_skip_keyword (title s) \<longrightarrow> max_row s \<le> n" by auto
    with IH e show ?thesis by auto
  next
    case False
    with st g have e: "b1 = Some (title s)" "n1 = max_row s" by (auto simp: pick_step_def split: if_splits)
    from False have lt: "n < max_row s" and ns: "\<not> has_skip_keyword (title s)" by auto
    from IH e lt ns show ?thesis by (auto intro: less_le_trans)
  qed
qed

text \<open>
  C10. Called without a sheet name, \<open>parse_excel\<close> parses a sheet of greatest
  \<open>max_row\<close> among the sheets whose names contain none of the skip keywords, in any
  letter case; when every name contains one, it parses the first sheet of the workbook.
  The workbook is one the library can return: at least one sheet, distinct titles, and
  \<open>max_row\<close> at least 1 on every sheet.
\<close>

theorem auto_sheet_selection:
  assumes "wb \<noteq> []" and "distinct (map title wb)" and "\<forall>s \<in> set wb. 0 < max_row s"
      and "sheet_name = None \<or> sheet_name = Some []"
  shows "if \<forall>s \<in> set wb. has_skip_keyword (title s)
         then select_sheet wb sheet_name = Inr (title (hd wb)) \<and>
              parse_excel pf wb sheet_name = Inr (parse_sheet pf (title (hd wb)) (sheet_rows (hd wb)))
         else \<exists>s \<in> set wb. \<not> has_skip_keyword (title s) \<and>
                (\<forall>t \<in> set wb. \<not> has_skip_keyword (title t) \<longrightarrow> max_row t \<le> max_row s) \<and>
                select_sheet wb sheet_name = Inr (title s) \<and>
                parse_excel pf wb sheet_name = Inr (parse_sheet pf (title s) (sheet_rows s))"
proof -
  obtain b' n' where f: "fold (pick_step wb) (map title wb) (None, 0) = (b', n')"
    by (cases "fold (pick_step wb) (map title wb) (None, 0)")
  from pick_fold[OF assms(2) subset_refl f]
  have bound: "\<forall>t \<in> set wb. \<not> has_skip_keyword (title t) \<longrightarrow> max_row t \<le> n'"
    and alt: "(b', n') = (None, 0) \<or>
          (\<exists>s \<in> set wb. \<not> has_skip_keyword (title s) \<and> b' = Some (title s) \<and> n' = max_row s \<and> 0 < n')"
    by auto
  have sel: "select_sheet wb sheet_name = pick_sheet wb"
    using assms(4) by (auto simp: select_sheet_def)
  have pe: "parse_excel pf wb sheet_name = Inr (parse_sheet pf (title s) (sheet_rows s))"
    if "select_sheet wb sheet_name = Inr (title s)" "s \<in> set wb" for s
    using that wb_get_member[OF assms(2) that(2)] by (simp add: parse_excel_def)
  show ?thesis
  proof (cases "\<forall>s \<in> set wb. has_skip_keyword (title s)")
    case True
    with alt have "b' = None" by auto
    with f assms(1) have "pick_sheet wb = Inr (title (hd wb))"
      by (cases wb) (auto simp: pick_sheet_def)
    with sel have s: "select_sheet wb sheet_name = Inr (title (hd wb))" by simp
    from assms(1) have "hd wb \<in> set wb" by simp
    from pe[OF s this] s True show ?thesis by simp
  next
    case False
    then obtain c where c: "c \<in> set wb" "\<not> has_skip_keyword (title c)" by auto
    with bound have "max_row c \<le> n'" by auto
    moreover from c assms(3) have "0 < max_row c" by auto
    ultimately have "0 < n'" by simp
    with alt obtain s where s: "s \<in> set wb" "\<not> has_skip_keyword (title s)" "b' = Some (title s)" "n' = max_row s"
      by auto
    from f s(3) have "pick_sheet wb = Inr (title s)" by (simp add: pick_sheet_def)
    with sel have ss: "select_sheet wb sheet_name = Inr (title s)" by simp
    from pe[OF ss s(1)] ss s bound False show ?thesis by auto
  qed
qed


theorem auto_sheet_selection_witness:
  "select_sheet
     [\<lparr>title = ''Dashboard'', max_row = 40, sheet_rows = []\<rparr>,
      \<lparr>title = ''Bids'', max_row = 12, sheet_rows = []\<rparr>,
      \<lparr>title = ''ALTERNATIVE bids'', max_row = 30, sheet_rows = []\<rparr>,
      \<lparr>title = ''Notes'', max_row = 12, sheet_rows = []\<rparr>] None = Inr ''Bids''"
proof -
  let ?wb = "[\<lparr>title = ''Dashboard'', max_row = 40, sheet_rows = []\<rparr>,
      \<lparr>title = ''Bids'', max_row = 12, sheet_rows = []\<rparr>,
      \<lparr>title = ''ALTERNATIVE bids'', max_row = 30, sheet_rows = []\<rparr>,
      \<lparr>title = ''Notes'', max_row = 12, sheet_rows = [] :: cell list list\<rparr>]"
  have h1: "?wb \<noteq> []" by simp
  have h2: "distinct (map title ?wb)" by simp
  have h3: "\<forall>s \<in> set ?wb. 0 < max_row s" by simp
  have k: "has_skip_keyword ''Dashboard''" "\<not> has_skip_keyword ''Bids''"
    "has_skip_keyword ''ALTERNATIVE bids''" "\<not> has_skip_keyword ''Notes''"
    by code_simp+
  from auto_sheet_selection [OF h1 h2 h3, of None "\<lambda>s. None"] k
  have "select_sheet ?wb None = Inr ''Bids'' \<or> select_sheet ?wb None = Inr ''Notes''"
    by auto
  moreover have "select_sheet ?wb None \<noteq> Inr ''Notes''"
    by code_simp
  ultimately show ?thesis by simp
qed

subsection \<open>Format classifier and compound headers\<close>

text \<open>
  C3. The claim: the classifier decides for the compound-header format exactly when some
  header cell ends in a recognised price suffix that follows a non-empty prefix. The
  header cell \<^verbatim>\<open>UNIT_PRICE\<close> has no prefix, and no cell of the header below counts under
  the specification's rule, yet the classifier decides for the compound format: the test
  for an underscore followed by a search for the price words anywhere in the cell accepts
  it. A sheet with bidder names above such a header is then parsed as compound and loses
  its bidders.
\<close>

theorem bare_unit_price_header_is_compound:
  "detect_format_b [CStr ''ITEM #'', CStr ''DESCRIPTION'', CStr ''UNIT_PRICE''] \<and>
   \<not> list_ex spec_compound_cell [CStr ''ITEM #'', CStr ''DESCRIPTION'', CStr ''UNIT_PRICE''] \<and>
   parse_excel (\<lambda>s. None)
     [\<lparr>title = ''Bids'', max_row = 3,
       sheet_rows = [[CNone, CNone, CStr ''SMP'', CStr ''EDGEN''],
                     [CStr ''ITEM #'', CStr ''DESCRIPTION'', CStr ''UNIT_PRICE'', CStr ''UNIT_PRICE''],
                     [CStr ''1'', CStr ''GASKET, 2IN'', CObj ''10.5'' True (Some (Num (21 / 2))), CObj ''11'' True (Some (Num 11))]]\<rparr>]
     None =
   Inr (Parsed \<lparr>format = ''B'', sheet = ''Bids'', bidders = [],
                items = [\<lparr>item_number = ''1'', item_type = ''GASKET'', item_spec = ''2IN'',
                          item_size = None, item_unit = None, item_quantity = None, bids = []\<rparr>],
                ambiguities = [''No bidders detected automatically.''],
                rfq_map = [(''item_num'', 0), (''description'', 1)]\<rparr>)"
  by code_simp

text \<open>
  C4. The claim: a compound header made of a non-empty prefix and a recognised price
  suffix yields the upper-cased prefix as the bidder name. For \<^verbatim>\<open>WHITCO EXT. PRICE\<close> the
  extractor cuts as many characters as the suffix has without its dot, one too few, and
  the name keeps the space: the unit price and the extended price of the same vendor go
  to two different bidders.
\<close>

theorem ext_dot_price_bidder_name:
  "parse_excel (\<lambda>s. None)
     [\<lparr>title = ''Bids'', max_row = 2,
       sheet_rows = [[CStr ''ITEM #'', CStr ''DESC'', CStr ''WHITCO UNIT PRICE'', CStr ''WHITCO EXT. PRICE''],
                     [CStr ''1'', CStr ''GASKET, 2IN'', CObj ''10.5'' True (Some (Num (21 / 2))), CObj ''21.0'' True (Some (Num 21))]]\<rparr>]
     None =
   Inr (Parsed \<lparr>format = ''B'', sheet = ''Bids'', bidders = [''WHITCO'', ''WHITCO ''],
                items = [\<lparr>item_number = ''1'', item_type = ''GASKET'', item_spec = ''2IN'',
                          item_size = None, item_unit = None, item_quantity = None,
                          bids = [(''WHITCO'', \<lparr>unit_price = Some (Num (21 / 2)), ext_price = None\<rparr>),
                                  (''WHITCO '', \<lparr>unit_price = None, ext_price = Some (Num 21)\<rparr>)]\<rparr>],
                ambiguities = [],
                rfq_map = [(''item_num'', 0), (''description'', 1)]\<rparr>)"
  by code_simp

subsection \<open>Item rows\<close>

text \<open>
  C6. The claim: every emitted item has a non-empty item number shorter than 20
  characters. A row whose item-number cell is the number 0 passes \<open>is_data_row\<close>, which
  looks at the text \<^verbatim>\<open>0\<close>, and is emitted with the empty item number, because the
  item is built under a truth test and 0 is false.
\<close>

theorem zero_item_number_emitted_empty:
  "parse_excel (\<lambda>s. None)
     [\<lparr>title = ''Bids'', max_row = 2,
       sheet_rows = [[CStr ''ITEM #'', CStr ''DESCRIPTION''],
                     [CObj ''0'' False (Some (Num 0)), CStr ''GASKET, 2IN'']]\<rparr>]
     None =
   Inr (Parsed \<lparr>format = ''AC'', sheet = ''Bids'', bidders = [],
                items = [\<lparr>item_number = [], item_type = ''GASKET'', item_spec = ''2IN'',
                          item_size = None, item_unit = None, item_quantity = None, bids = []\<rparr>],
                ambiguities = [''No bidders detected automatically.''],
                rfq_map = [(''item_num'', 0), (''description'', 1)]\<rparr>)"
  by code_simp

subsection \<open>Bid maps and stored bids\<close>

lemma update_new_key: "k \<notin> fst ` set al \<Longrightarrow> AList.update k v al = al @ [(k, v)]"
  by (induction al) auto


lemma row_bids_fold:
  "distinct (map fst bm) \<Longrightarrow> fst ` set bm \<inter> fst ` set acc = {} \<Longrightarrow>
   fold (\<lambda>(bidder_name, cols) bs.
           AList.update bidder_name
             \<lparr>unit_price = price_at pf row (map_of cols ''unit_price''),
              ext_price = price_at pf row (map_of cols ''ext_price'')\<rparr> bs) bm acc =
   acc @ map (bid_entry pf row) bm"
proof (induction bm arbitrary: acc)
  case Nil
  then show ?case by simp
next
  case (Cons a bm)
  obtain n cols where a: "a = (n, cols)" by (cases a)
  let ?v = "\<lparr>unit_price = price_at pf row (map_of cols ''unit_price''),
             ext_price = price_at pf row (map_of cols ''ext_price'')\<rparr>"
  from Cons.prems a have nk: "n \<notin> fst ` set acc" by auto
  from Cons.prems a have d: "distinct (map fst bm)" and nb: "n \<notin> fst ` set bm" by auto
  from Cons.prems a nb have "fst ` set bm \<inter> fst ` set (acc @ [(n, ?v)]) = {}" by auto
  from Cons.IH[OF d this] show ?case
    by (simp add: a update_new_key[OF nk] bid_entry_def)
qed

lemma row_bids_entries: "distinct (map fst bm) \<Longrightarrow> row_bids pf bm row = map (bid_entry pf row) bm"
  unfolding row_bids_def using row_bids_fold[of bm "[]" pf row] by simp

lemma set_bidder_col_distinct:
  "distinct (map fst bm) \<Longrightarrow> distinct (map fst (set_bidder_col n f c bm))"
  by (simp add: set_bidder_col_def distinct_update)

lemma format_b_distinct:
  "distinct (map fst (snd st)) \<Longrightarrow> distinct (map fst (snd (fold format_b_col chs st)))"
proof (induction chs arbitrary: st)
  case Nil
  then show ?case by simp
next
  case (Cons ch chs)
  have "distinct (map fst (snd (format_b_col ch st)))"
    using Cons.prems
    by (cases ch; cases st) (auto simp: format_b_col_def Let_def set_bidder_col_distinct)
  from Cons.IH[OF this] show ?case by simp
qed

lemma assign_distinct:
  "distinct (map fst bm) \<Longrightarrow> distinct (map fst (fold (assign_col names) cr bm))"
proof (induction cr arbitrary: bm)
  case Nil
  then show ?case by simp
next
  case (Cons x cr)
  have "distinct (map fst (assign_col names x bm))"
    using Cons.prems
    by (cases x) (auto simp: assign_col_def set_bidder_col_distinct split: option.splits)
  from Cons.IH[OF this] show ?case by simp
qed

lemma col_maps_distinct: "distinct (map fst (snd (col_maps rows hi hc)))"
proof (cases "detect_format_b hc")
  case True
  then show ?thesis
    using format_b_distinct[of "([], [])" "enumerate 0 hc"]
    by (simp add: col_maps_def parse_format_b_def)
next
  case False
  then show ?thesis
    using assign_distinct[of "[]"]
    by (simp add: col_maps_def parse_format_ac_def Let_def split: prod.splits)
qed

lemma parse_sheet_items:
  assumes "parse_sheet pf sn rows = Parsed p"
  shows "\<exists>hi hc. find_header_row rows = Some (hi, hc) \<and> sheet p = sn \<and>
           bidders p = sort (map fst (snd (col_maps rows hi hc))) \<and>
           items p = map (make_item pf (fst (col_maps rows hi hc)) (snd (col_maps rows hi hc)))
                       (filter (\<lambda>row. is_data_row row (fst (col_maps rows hi hc))) (drop (hi + 1) rows))"
proof -
  from assms have ne: "rows \<noteq> []" by (auto simp: parse_sheet_def split: if_splits)
  with assms obtain x where fh: "find_header_row rows = Some x"
    by (cases "find_header_row rows") (auto simp: parse_sheet_def)
  obtain hi hc where x: "x = (hi, hc)" by (cases x)
  from assms ne fh x show ?thesis
    by (cases "detect_format_b hc") (auto simp: parse_sheet_def Let_def col_maps_def)
qed

lemma make_item_bids:
  "bids (make_item pf rm (snd (col_maps rows hi hc)) row) =
     map (bid_entry pf row) (snd (col_maps rows hi hc))"
  by (simp add: make_item_def Let_def row_bids_entries[OF col_maps_distinct])

lemma bid_entry_keys: "map fst (map (bid_entry pf row) bm) = map fst bm"
  by (simp add: bid_entry_def)

lemma parse_excel_bids:
  assumes "parse_excel pf wb sheet_name = Inr (Parsed p)"
  shows "(\<exists>ws hi hc.
            wb_get wb (sheet p) = Inr ws \<and> find_header_row (sheet_rows ws) = Some (hi, hc) \<and>
            bidders p = sort (map fst (snd (col_maps (sheet_rows ws) hi hc))) \<and>
            list_all2 (\<lambda>it row. bids it = map (bid_entry pf row) (snd (col_maps (sheet_rows ws) hi hc)))
              (items p)
              (filter (\<lambda>row. is_data_row row (fst (col_maps (sheet_rows ws) hi hc)))
                 (drop (hi + 1) (sheet_rows ws))))"
    and "it \<in> set (items p) \<Longrightarrow> distinct (map fst (bids it)) \<and> set (map fst (bids it)) = set (bidders p)"
proof -
  from assms obtain sn ws where w: "wb_get wb sn = Inr ws" and ps: "parse_sheet pf sn (sheet_rows ws) = Parsed p"
    by (auto simp: parse_excel_def split: sum.splits)
  from parse_sheet_items[OF ps] obtain hi hc where
    h: "find_header_row (sheet_rows ws) = Some (hi, hc)" and s: "sheet p = sn" and
    b: "bidders p = sort (map fst (snd (col_maps (sheet_rows ws) hi hc)))" and
    i: "items p = map (make_item pf (fst (col_maps (sheet_rows ws) hi hc)) (snd (col_maps (sheet_rows ws) hi hc)))
                    (filter (\<lambda>row. is_data_row row (fst (col_maps (sheet_rows ws) hi hc)))
                       (drop (hi + 1) (sheet_rows ws)))"
    by blast
  have l: "list_all2 (\<lambda>it row. bids it = map (bid_entry pf row) (snd (col_maps (sheet_rows ws) hi hc)))
              (items p)
              (filter (\<lambda>row. is_data_row row (fst (col_maps (sheet_rows ws) hi hc)))
                 (drop (hi + 1) (sheet_rows ws)))"
    unfolding i by (simp add: list_all2_map1 list_all2_same make_item_bids)
  from w s h b l show "\<exists>ws hi hc.
            wb_get wb (sheet p) = Inr ws \<and> find_header_row (sheet_rows ws) = Some (hi, hc) \<and>
            bidders p = sort (map fst (snd (col_maps (sheet_rows ws) hi hc))) \<and>
            list_all2 (\<lambda>it row. bids it = map (bid_entry pf row) (snd (col_maps (sheet_rows ws) hi hc)))
              (items p)
              (filter (\<lambda>row. is_data_row row (fst (col_maps (sheet_rows ws) hi hc)))
                 (drop (hi + 1) (sheet_rows ws)))"
    by blast
  show "distinct (map fst (bids it)) \<and> set (map fst (bids it)) = set (bidders p)" if "it \<in> set (items p)"
  proof -
    from that i obtain row where "it = make_item pf (fst (col_maps (sheet_rows ws) hi hc)) (snd (col_maps (sheet_rows ws) hi hc)) row"
      by auto
    then have "map fst (bids it) = map fst (snd (col_maps (sheet_rows ws) hi hc))"
      by (simp only: make_item_bids bid_entry_keys)
    with b col_maps_distinct[of "sheet_rows ws" hi hc] show ?thesis by simp
  qed
qed

lemma get_or_create_bidder_facts:
  assumes "get_or_create_bidder name d = (i, d1)"
  shows "(i, name) \<in> set (bidders_tbl d1)" "set (bidders_tbl d) \<subseteq> set (bidders_tbl d1)"
        "bids_tbl d1 = bids_tbl d" "rfq_items d1 = rfq_items d" "seq_items d1 = seq_items d"
proof -
  show "(i, name) \<in> set (bidders_tbl d1)"
  proof (cases "find (\<lambda>(i, n). n = name) (bidders_tbl d)")
    case None
    with assms show ?thesis by (auto simp: get_or_create_bidder_def Let_def)
  next
    case (Some a)
    then obtain j where "j < length (bidders_tbl d)" "bidders_tbl d ! j = a" "snd a = name"
      by (auto simp: find_Some_iff)
    then have "a \<in> set (bidders_tbl d)" and "snd a = name"
      using nth_mem by auto
    with assms Some show ?thesis by (cases a) (auto simp: get_or_create_bidder_def)
  qed
  show "set (bidders_tbl d) \<subseteq> set (bidders_tbl d1)"
    using assms by (auto simp: get_or_create_bidder_def Let_def split: option.splits)
  show "bids_tbl d1 = bids_tbl d"
    using assms by (auto simp: get_or_create_bidder_def Let_def split: option.splits)
  show "rfq_items d1 = rfq_items d"
    using assms by (auto simp: get_or_create_bidder_def Let_def split: option.splits)
  show "seq_items d1 = seq_items d"
    using assms by (auto simp: get_or_create_bidder_def Let_def split: option.splits)
qed

lemma get_or_create_bidder_wf:
  assumes "get_or_create_bidder name d = (i, d1)" and "bidders_wf d"
  shows "bidders_wf d1"
proof (cases "find (\<lambda>(i, n). n = name) (bidders_tbl d)")
  case (Some a)
  with assms show ?thesis by (cases a) (auto simp: get_or_create_bidder_def)
next
  case None
  then have nn: "name \<notin> snd ` set (bidders_tbl d)" by (auto simp: find_None_iff)
  from assms(2) have "\<forall>j \<in> fst ` set (bidders_tbl d). j \<le> seq_bidders d"
    by (simp add: bidders_wf_def list_all_iff)
  then have ni: "seq_bidders d + 1 \<notin> fst ` set (bidders_tbl d)" by auto
  from None assms(1) have d1: "d1 = d\<lparr>bidders_tbl := bidders_tbl d @ [(seq_bidders d + 1, name)],
                                     seq_bidders := seq_bidders d + 1\<rparr>"
    by (auto simp: get_or_create_bidder_def Let_def)
  from assms(2) nn ni show ?thesis
    unfolding d1 bidders_wf_def by (auto simp: list_all_iff)
qed

lemma stored_as_mono:
  "stored_as d rfq_id item_id r nb \<Longrightarrow> set (bidders_tbl d) \<subseteq> set (bidders_tbl d') \<Longrightarrow>
   stored_as d' rfq_id item_id r nb"
  by (auto simp: stored_as_def)

lemma load_bid_facts:
  "set (bidders_tbl d) \<subseteq> set (bidders_tbl (load_bid rfq_id item_id nb d)) \<and>
   rfq_items (load_bid rfq_id item_id nb d) = rfq_items d \<and>
   seq_items (load_bid rfq_id item_id nb d) = seq_items d \<and>
   (bidders_wf d \<longrightarrow> bidders_wf (load_bid rfq_id item_id nb d)) \<and>
   (\<exists>new. bids_tbl (load_bid rfq_id item_id nb d) = bids_tbl d @ new \<and>
          list_all2 (stored_as (load_bid rfq_id item_id nb d) rfq_id item_id) new (filter quoted [nb]))"
proof (cases "quoted nb")
  case False
  then have "load_bid rfq_id item_id nb d = d"
    by (cases nb) (simp add: load_bid_def quoted_def)
  with False show ?thesis by simp
next
  case True
  obtain n b where nb: "nb = (n, b)" by (cases nb)
  obtain i d1 where g: "get_or_create_bidder n d = (i, d1)" by (cases "get_or_create_bidder n d")
  let ?r = "\<lparr>b_id = seq_bids d1 + 1, b_rfq_id = rfq_id, b_item_id = item_id,
             b_bidder_id = i, b_unit_price = sql_real (unit_price b),
             b_ext_price = sql_real (ext_price b)\<rparr>"
  from True nb g have l: "load_bid rfq_id item_id nb d =
      d1\<lparr>bids_tbl := bids_tbl d1 @ [?r], seq_bids := seq_bids d1 + 1\<rparr>"
    by (auto simp: load_bid_def quoted_def Let_def)
  note f = get_or_create_bidder_facts[OF g]
  from l f have "set (bidders_tbl d) \<subseteq> set (bidders_tbl (load_bid rfq_id item_id nb d))" by simp
  moreover from l f have "rfq_items (load_bid rfq_id item_id nb d) = rfq_items d"
    and "seq_items (load_bid rfq_id item_id nb d) = seq_items d" by simp_all
  moreover have "bidders_wf (load_bid rfq_id item_id nb d)" if "bidders_wf d"
    using get_or_create_bidder_wf[OF g that] l by (simp add: bidders_wf_def)
  moreover from l f have "bids_tbl (load_bid rfq_id item_id nb d) = bids_tbl d @ [?r]" by simp
  moreover from l f nb have "stored_as (load_bid rfq_id item_id nb d) rfq_id item_id ?r nb"
    by (simp add: stored_as_def)
  ultimately show ?thesis using True by simp
qed

lemma load_bids_fold:
  "set (bidders_tbl d) \<subseteq> set (bidders_tbl (fold (load_bid rfq_id item_id) bs d)) \<and>
   rfq_items (fold (load_bid rfq_id item_id) bs d) = rfq_items d \<and>
   seq_items (fold (load_bid rfq_id item_id) bs d) = seq_items d \<and>
   (bidders_wf d \<longrightarrow> bidders_wf (fold (load_bid rfq_id item_id) bs d)) \<and>
   (\<exists>new. bids_tbl (fold (load_bid rfq_id item_id) bs d) = bids_tbl d @ new \<and>
          list_all2 (stored_as (fold (load_bid rfq_id item_id) bs d) rfq_id item_id) new (filter quoted bs))"
proof (induction bs arbitrary: d)
  case Nil
  then show ?case by simp
next
  case (Cons nb bs)
  let ?d1 = "load_bid rfq_id item_id nb d"
  let ?d' = "fold (load_bid rfq_id item_id) bs ?d1"
  from load_bid_facts[of d rfq_id item_id nb] obtain new1 where
    s1: "set (bidders_tbl d) \<subseteq> set (bidders_tbl ?d1)" and
    i1: "rfq_items ?d1 = rfq_items d" "seq_items ?d1 = seq_items d" and
    w1: "bidders_wf d \<longrightarrow> bidders_wf ?d1" and
    b1: "bids_tbl ?d1 = bids_tbl d @ new1" and
    a1: "list_all2 (stored_as ?d1 rfq_id item_id) new1 (filter quoted [nb])" by blast
  from Cons.IH[of ?d1] obtain new2 where
    s2: "set (bidders_tbl ?d1) \<subseteq> set (bidders_tbl ?d')" and
    i2: "rfq_items ?d' = rfq_items ?d1" "seq_items ?d' = seq_items ?d1" and
    w2: "bidders_wf ?d1 \<longrightarrow> bidders_wf ?d'" and
    b2: "bids_tbl ?d' = bids_tbl ?d1 @ new2" and
    a2: "list_all2 (stored_as ?d' rfq_id item_id) new2 (filter quoted bs)" by blast
  from a1 s2 have a1': "list_all2 (stored_as ?d' rfq_id item_id) new1 (filter quoted [nb])"
    by (auto elim!: list_all2_mono intro: stored_as_mono)
  have "filter quoted (nb # bs) = filter quoted [nb] @ filter quoted bs" by simp
  with a1' a2 have "list_all2 (stored_as ?d' rfq_id item_id) (new1 @ new2) (filter quoted (nb # bs))"
    by (simp only: list_all2_appendI)
  moreover from b1 b2 have "bids_tbl ?d' = bids_tbl d @ (new1 @ new2)" by simp
  ultimately have "\<exists>new. bids_tbl ?d' = bids_tbl d @ new \<and>
      list_all2 (stored_as ?d' rfq_id item_id) new (filter quoted (nb # bs))"
    by blast
  moreover from s1 s2 have "set (bidders_tbl d) \<subseteq> set (bidders_tbl ?d')" by blast
  moreover from i1 i2 have "rfq_items ?d' = rfq_items d" "seq_items ?d' = seq_items d" by simp_all
  moreover from w1 w2 have "bidders_wf d \<longrightarrow> bidders_wf ?d'" by blast
  ultimately show ?case by simp
qed

lemma load_item_facts:
  "set (bidders_tbl d) \<subseteq> set (bidders_tbl (load_item rfq_id it d)) \<and>
   seq_items (load_item rfq_id it d) = seq_items d + 1 \<and>
   (bidders_wf d \<longrightarrow> bidders_wf (load_item rfq_id it d)) \<and>
   (\<exists>ir. rfq_items (load_item rfq_id it d) = rfq_items d @ [ir] \<and>
         item_stored_as rfq_id ir (seq_items d + 1, it)) \<and>
   (\<exists>new. bids_tbl (load_item rfq_id it d) = bids_tbl d @ new \<and>
          list_all2 (stored_as (load_item rfq_id it d) rfq_id (seq_items d + 1)) new (filter quoted (bids it)))"
proof -
  let ?ir = "\<lparr>i_id = seq_items d + 1, i_rfq_id = rfq_id, i_item_number = item_number it,
                      i_item_type = item_type it, i_specification = item_spec it,
                      i_size = item_size it, i_unit = item_unit it,
                      i_quantity = sql_real (item_quantity it)\<rparr>"
  let ?d1 = "d\<lparr>rfq_items := rfq_items d @ [?ir], seq_items := seq_items d + 1\<rparr>"
  have l: "load_item rfq_id it d = fold (load_bid rfq_id (seq_items d + 1)) (bids it) ?d1"
    by (simp add: load_item_def Let_def)
  have w: "bidders_wf ?d1 = bidders_wf d" by (simp add: bidders_wf_def)
  have "item_stored_as rfq_id ?ir (seq_items d + 1, it)" by (simp add: item_stored_as_def)
  with load_bids_fold[of ?d1 rfq_id "seq_items d + 1" "bids it"] l w show ?thesis by simp
qed

lemma load_items_fold:
  "set (bidders_tbl d) \<subseteq> set (bidders_tbl (fold (load_item rfq_id) its d)) \<and>
   (bidders_wf d \<longrightarrow> bidders_wf (fold (load_item rfq_id) its d)) \<and>
   (\<exists>irs. rfq_items (fold (load_item rfq_id) its d) = rfq_items d @ irs \<and>
          list_all2 (item_stored_as rfq_id) irs (enumerate (seq_items d + 1) its)) \<and>
   (\<exists>news. bids_tbl (fold (load_item rfq_id) its d) = bids_tbl d @ concat news \<and>
           list_all2 (\<lambda>new jt. list_all2 (stored_as (fold (load_item rfq_id) its d) rfq_id (fst jt)) new
                                  (filter quoted (bids (snd jt))))
             news (enumerate (seq_items d + 1) its))"
proof (induction its arbitrary: d)
  case Nil
  then show ?case by simp
next
  case (Cons it its)
  let ?d1 = "load_item rfq_id it d"
  let ?d' = "fold (load_item rfq_id) its ?d1"
  from load_item_facts[of d rfq_id it] obtain ir new1 where
    s1: "set (bidders_tbl d) \<subseteq> set (bidders_tbl ?d1)" and
    q1: "seq_items ?d1 = seq_items d + 1" and
    w1: "bidders_wf d \<longrightarrow> bidders_wf ?d1" and
    i1: "rfq_items ?d1 = rfq_items d @ [ir]" "item_stored_as rfq_id ir (seq_items d + 1, it)" and
    b1: "bids_tbl ?d1 = bids_tbl d @ new1" and
    a1: "list_all2 (stored_as ?d1 rfq_id (seq_items d + 1)) new1 (filter quoted (bids it))" by blast
  from Cons.IH[of ?d1] obtain irs news where
    s2: "set (bidders_tbl ?d1) \<subseteq> set (bidders_tbl ?d')" and
    w2: "bidders_wf ?d1 \<longrightarrow> bidders_wf ?d'" and
    i2: "rfq_items ?d' = rfq_items ?d1 @ irs"
        "list_all2 (item_stored_as rfq_id) irs (enumerate (seq_items ?d1 + 1) its)" and
    b2: "bids_tbl ?d' = bids_tbl ?d1 @ concat news" and
    a2: "list_all2 (\<lambda>new jt. list_all2 (stored_as ?d' rfq_id (fst jt)) new (filter quoted (bids (snd jt))))
           news (enumerate (seq_items ?d1 + 1) its)" by blast
  have e: "enumerate (seq_items d + 1) (it # its) = (seq_items d + 1, it) # enumerate (seq_items ?d1 + 1) its"
    by (simp add: q1)
  from a1 s2 have a1': "list_all2 (stored_as ?d' rfq_id (seq_items d + 1)) new1 (filter quoted (bids it))"
    by (auto elim!: list_all2_mono intro: stored_as_mono)
  from a1' a2 have "list_all2 (\<lambda>new jt. list_all2 (stored_as ?d' rfq_id (fst jt)) new (filter quoted (bids (snd jt))))
           (new1 # news) (enumerate (seq_items d + 1) (it # its))"
    unfolding e by simp
  moreover from b1 b2 have "bids_tbl ?d' = bids_tbl d @ concat (new1 # news)" by simp
  ultimately have B: "\<exists>news. bids_tbl ?d' = bids_tbl d @ concat news \<and>
      list_all2 (\<lambda>new jt. list_all2 (stored_as ?d' rfq_id (fst jt)) new (filter quoted (bids (snd jt))))
           news (enumerate (seq_items d + 1) (it # its))"
    by blast
  from i1 i2 have "list_all2 (item_stored_as rfq_id) (ir # irs) (enumerate (seq_items d + 1) (it # its))"
    unfolding e by simp
  moreover from i1 i2 have "rfq_items ?d' = rfq_items d @ (ir # irs)" by simp
  ultimately have I: "\<exists>irs. rfq_items ?d' = rfq_items d @ irs \<and>
      list_all2 (item_stored_as rfq_id) irs (enumerate (seq_items d + 1) (it # its))"
    by blast
  from s1 s2 have S: "set (bidders_tbl d) \<subseteq> set (bidders_tbl ?d')" by blast
  from w1 w2 have W: "bidders_wf d \<longrightarrow> bidders_wf ?d'" by blast
  have f: "fold (load_item rfq_id) (it # its) d = ?d'" by simp
  from S W I B show ?case unfolding f by blast
qed

lemma load_bid_rfqs: "rfqs (load_bid rfq_id item_id nb d) = rfqs d"
  by (cases nb) (auto simp: load_bid_def get_or_create_bidder_def Let_def split: option.splits prod.splits)

lemma load_bids_rfqs: "rfqs (fold (load_bid rfq_id item_id) bs d) = rfqs d"
  by (induction bs arbitrary: d) (simp_all add: load_bid_rfqs)

lemma load_item_rfqs: "rfqs (load_item rfq_id it d) = rfqs d"
  by (simp add: load_item_def Let_def load_bids_rfqs)

lemma load_items_rfqs: "rfqs (fold (load_item rfq_id) its d) = rfqs d"
  by (induction its arbitrary: d) (simp_all add: load_item_rfqs)

lemma items_stored_rfq:
  "list_all2 (item_stored_as rfq_id) irs its \<Longrightarrow> ir \<in> set irs \<Longrightarrow> i_rfq_id ir = rfq_id"
  by (auto simp: list_all2_conv_all_nth in_set_conv_nth item_stored_as_def)

lemma bids_stored_rfq:
  assumes "list_all2 (\<lambda>new jt. list_all2 (stored_as d rfq_id (fst jt)) new (f jt)) news its"
    and "r \<in> set (concat news)"
  shows "b_rfq_id r = rfq_id"
proof -
  from assms(2) obtain new where n: "new \<in> set news" and r: "r \<in> set new" by auto
  from n obtain j where j: "j < length news" "new = news ! j" by (auto simp: in_set_conv_nth)
  with assms(1) have a: "list_all2 (stored_as d rfq_id (fst (its ! j))) new (f (its ! j))"
    by (auto simp: list_all2_conv_all_nth)
  from r obtain k where k: "k < length new" "r = new ! k" by (auto simp: in_set_conv_nth)
  with a have "stored_as d rfq_id (fst (its ! j)) r (f (its ! j) ! k)"
    by (auto simp: list_all2_conv_all_nth)
  then show ?thesis by (simp add: stored_as_def)
qed

lemma delete_rfq_rows_facts:
  "bidders_tbl (delete_rfq_rows rfq_id d) = bidders_tbl d"
  "seq_items (delete_rfq_rows rfq_id d) = seq_items d"
  "bidders_wf (delete_rfq_rows rfq_id d) = bidders_wf d"
  by (simp_all add: delete_rfq_rows_def bidders_wf_def)

lemma delete_rfq_rows_refs:
  assumes "rfq_refs_ok d"
  shows "list_all (\<lambda>r. b_rfq_id r \<noteq> rfq_id) (bids_tbl (delete_rfq_rows rfq_id d))"
    and "list_all (\<lambda>i. i_rfq_id i \<noteq> rfq_id) (rfq_items (delete_rfq_rows rfq_id d))"
    and "rfq_refs_ok (delete_rfq_rows rfq_id d)"
    and "rfq_id \<notin> set (map r_rfq_id (rfqs (delete_rfq_rows rfq_id d)))"
proof -
  show "list_all (\<lambda>r. b_rfq_id r \<noteq> rfq_id) (bids_tbl (delete_rfq_rows rfq_id d))"
    using assms by (fastforce simp: delete_rfq_rows_def rfq_refs_ok_def list_all_iff list_ex_iff)
  show "list_all (\<lambda>i. i_rfq_id i \<noteq> rfq_id) (rfq_items (delete_rfq_rows rfq_id d))"
    using assms by (fastforce simp: delete_rfq_rows_def rfq_refs_ok_def list_all_iff list_ex_iff)
  show "rfq_refs_ok (delete_rfq_rows rfq_id d)"
    using assms by (fastforce simp: delete_rfq_rows_def rfq_refs_ok_def list_all_iff list_ex_iff)
  show "rfq_id \<notin> set (map r_rfq_id (rfqs (delete_rfq_rows rfq_id d)))"
    by (auto simp: delete_rfq_rows_def list_ex_iff)
qed

text \<open>
  C1, as the code has it. The claim puts the omission in the parser: a bidder whose two
  prices would both be null is left out of the item's bid map. The parser leaves no bidder
  out. The emitted items are, in order, the data rows below the header, and the bid map of
  each has exactly one entry for every bidder of the bidder map, in the order of that map:
  the entry holds what \<open>safe_float\<close> reads in the bidder's unit price and extended price
  cells of the row, and \<open>None\<close> for a price whose column is not mapped or lies beyond the
  row. A bidder who did not quote has an entry with both prices \<open>None\<close>; the keys of every
  bid map are the detected bidders.

  The omission happens on loading. \<open>load_parsed_rfq\<close> first deletes the RFQ, which in a
  store that keeps its references leaves no item row and no bid row of the RFQ. It then
  appends one item row for each parsed item, with consecutive ids from the item
  counter on, and, for each item in order, one bid row for each entry of its bid map that
  has a value other than \<open>None\<close>, in the order of the map, and none for an entry with both
  values \<open>None\<close>. The row carries the id of the item, the id of a bidder row with the entry's
  name and the entry's two values as the column stores them. So the bid rows of the RFQ
  after loading are exactly these, and a bidder has no bid row for an item exactly when both
  parsed values are \<open>None\<close>. The bidder table only grows, it keeps ids and names
  distinct, and the store keeps its references.
\<close>

theorem every_bidder_has_entry_loader_skips_unquoted:
  "(parse_excel pf wb sheet_name = Inr (Parsed p) \<longrightarrow>
      (\<exists>ws hi hc.
         wb_get wb (sheet p) = Inr ws \<and> find_header_row (sheet_rows ws) = Some (hi, hc) \<and>
         bidders p = sort (map fst (snd (col_maps (sheet_rows ws) hi hc))) \<and>
         list_all2 (\<lambda>it row. bids it = map (bid_entry pf row) (snd (col_maps (sheet_rows ws) hi hc)))
           (items p)
           (filter (\<lambda>row. is_data_row row (fst (col_maps (sheet_rows ws) hi hc)))
              (drop (hi + 1) (sheet_rows ws)))) \<and>
      (\<forall>it \<in> set (items p).
         distinct (map fst (bids it)) \<and> set (map fst (bids it)) = set (bidders p))) \<and>
   (let d0 = delete_rfq_rows rfq_id d;
        d' = load_parsed_rfq rfq_id cr stn pj dt sf shn res pot nts d;
        its = enumerate (seq_items d + 1) (result_items res)
    in (\<exists>irs. rfq_items d' = rfq_items d0 @ irs \<and> list_all2 (item_stored_as rfq_id) irs its) \<and>
       (\<exists>news. bids_tbl d' = bids_tbl d0 @ concat news \<and>
               list_all2 (\<lambda>new jt. list_all2 (stored_as d' rfq_id (fst jt)) new
                                      (filter quoted (bids (snd jt))))
                 news its) \<and>
       set (bidders_tbl d) \<subseteq> set (bidders_tbl d') \<and>
       (bidders_wf d \<longrightarrow> bidders_wf d') \<and>
       (rfq_refs_ok d \<longrightarrow>
          list_all (\<lambda>r. b_rfq_id r \<noteq> rfq_id) (bids_tbl d0) \<and>
          list_all (\<lambda>i. i_rfq_id i \<noteq> rfq_id) (rfq_items d0) \<and>
          rfq_refs_ok d'))"
proof -
  let ?d0 = "delete_rfq_rows rfq_id d"
  let ?d2 = "?d0\<lparr>rfqs := rfqs ?d0 @
                     [\<lparr>r_rfq_id = rfq_id, r_creator = cr, r_station = stn,
                       r_project = pj, r_rfq_date = dt, r_source_file = sf,
                       r_sheet_name = shn, r_is_potential = (if pot then 1 else 0),
                       r_notes = nts\<rparr>]\<rparr>"
  let ?d' = "load_parsed_rfq rfq_id cr stn pj dt sf shn res pot nts d"
  have l: "?d' = fold (load_item rfq_id) (result_items res) ?d2"
    by (simp add: load_parsed_rfq_def Let_def)
  have d2: "bidders_tbl ?d2 = bidders_tbl d" "seq_items ?d2 = seq_items d"
           "bidders_wf ?d2 = bidders_wf d" "bids_tbl ?d2 = bids_tbl ?d0" "rfq_items ?d2 = rfq_items ?d0"
    by (simp_all add: delete_rfq_rows_def bidders_wf_def)
  note F = load_items_fold[of ?d2 rfq_id "result_items res", folded l, unfolded d2]
  from F obtain irs where
    I: "rfq_items ?d' = rfq_items ?d0 @ irs"
       "list_all2 (item_stored_as rfq_id) irs (enumerate (seq_items d + 1) (result_items res))"
    by blast
  from F obtain news where
    B: "bids_tbl ?d' = bids_tbl ?d0 @ concat news"
       "list_all2 (\<lambda>new jt. list_all2 (stored_as ?d' rfq_id (fst jt)) new
                                      (filter quoted (bids (snd jt))))
                 news (enumerate (seq_items d + 1) (result_items res))"
    by blast
  have R: "rfqs ?d' = rfqs ?d0 @
                     [\<lparr>r_rfq_id = rfq_id, r_creator = cr, r_station = stn,
                       r_project = pj, r_rfq_date = dt, r_source_file = sf,
                       r_sheet_name = shn, r_is_potential = (if pot then 1 else 0),
                       r_notes = nts\<rparr>]"
    unfolding l load_items_rfqs by simp
  have refs: "rfq_refs_ok ?d'" if "rfq_refs_ok d"
  proof -
    from delete_rfq_rows_refs(3)[OF that, of rfq_id]
    have o: "\<forall>i \<in> set (rfq_items ?d0). i_rfq_id i \<in> set (map r_rfq_id (rfqs ?d0))"
            "\<forall>b \<in> set (bids_tbl ?d0). b_rfq_id b \<in> set (map r_rfq_id (rfqs ?d0))"
      by (simp_all add: rfq_refs_ok_def list_all_iff)
    have "i_rfq_id i \<in> set (map r_rfq_id (rfqs ?d'))" if "i \<in> set (rfq_items ?d')" for i
      using that o(1) items_stored_rfq[OF I(2), of i] unfolding I(1) R by auto
    moreover have "b_rfq_id b \<in> set (map r_rfq_id (rfqs ?d'))" if "b \<in> set (bids_tbl ?d')" for b
      using that o(2) bids_stored_rfq[OF B(2), of b] unfolding B(1) R by auto
    ultimately show ?thesis by (simp add: rfq_refs_ok_def list_all_iff)
  qed
  have loader: "(\<exists>irs. rfq_items ?d' = rfq_items ?d0 @ irs \<and>
              list_all2 (item_stored_as rfq_id) irs (enumerate (seq_items d + 1) (result_items res))) \<and>
       (\<exists>news. bids_tbl ?d' = bids_tbl ?d0 @ concat news \<and>
               list_all2 (\<lambda>new jt. list_all2 (stored_as ?d' rfq_id (fst jt)) new
                                      (filter quoted (bids (snd jt))))
                 news (enumerate (seq_items d + 1) (result_items res))) \<and>
       set (bidders_tbl d) \<subseteq> set (bidders_tbl ?d') \<and>
       (bidders_wf d \<longrightarrow> bidders_wf ?d') \<and>
       (rfq_refs_ok d \<longrightarrow>
          list_all (\<lambda>r. b_rfq_id r \<noteq> rfq_id) (bids_tbl ?d0) \<and>
          list_all (\<lambda>i. i_rfq_id i \<noteq> rfq_id) (rfq_items ?d0) \<and>
          rfq_refs_ok ?d')"
    using F refs delete_rfq_rows_refs(1,2)[of d rfq_id] by blast
  have parser: "parse_excel pf wb sheet_name = Inr (Parsed p) \<longrightarrow>
      (\<exists>ws hi hc.
         wb_get wb (sheet p) = Inr ws \<and> find_header_row (sheet_rows ws) = Some (hi, hc) \<and>
         bidders p = sort (map fst (snd (col_maps (sheet_rows ws) hi hc))) \<and>
         list_all2 (\<lambda>it row. bids it = map (bid_entry pf row) (snd (col_maps (sheet_rows ws) hi hc)))
           (items p)
           (filter (\<lambda>row. is_data_row row (fst (col_maps (sheet_rows ws) hi hc)))
              (drop (hi + 1) (sheet_rows ws)))) \<and>
      (\<forall>it \<in> set (items p).
         distinct (map fst (bids it)) \<and> set (map fst (bids it)) = set (bidders p))"
    using parse_excel_bids[of pf wb sheet_name p] by blast
  from parser loader show ?thesis unfolding Let_def by (rule conjI)
qed


text \<open>
  The workbook that refutes the claim as stated for the parser: WHITCO has a unit price and
  an extended price column, both cells of the item's row are empty, and WHITCO is in the
  item's bid map with both prices \<open>None\<close>.
\<close>

theorem unquoted_bidder_in_bids:
  "parse_excel (\<lambda>s. None)
     [\<lparr>title = ''Bids'', max_row = 2,
       sheet_rows = [[CStr ''ITEM #'', CStr ''DESCRIPTION'', CStr ''WHITCO_UNIT_PRICE'', CStr ''WHITCO_TOTAL_PRICE''],
                     [CStr ''1'', CStr ''GASKET, 2IN'', CNone, CNone]]\<rparr>]
     None =
   Inr (Parsed \<lparr>format = ''B'', sheet = ''Bids'', bidders = [''WHITCO''],
                items = [\<lparr>item_number = ''1'', item_type = ''GASKET'', item_spec = ''2IN'',
                          item_size = None, item_unit = None, item_quantity = None,
                          bids = [(''WHITCO'', \<lparr>unit_price = None, ext_price = None\<rparr>)]\<rparr>],
                ambiguities = [],
                rfq_map = [(''item_num'', 0), (''description'', 1)]\<rparr>)"
  by code_simp

text \<open>
  The statement on a workbook with two bidders and two items, loaded over a store that
  already holds the RFQ with one bid and knows one of the bidders: the old bid goes, and
  of the four entries the only one with a value becomes the only bid row.
\<close>

theorem every_bidder_has_entry_loader_skips_unquoted_witness:
  "(let wb = [\<lparr>title = ''Bids'', max_row = 3,
               sheet_rows = [[CStr ''ITEM #'', CStr ''DESCRIPTION'', CStr ''WHITCO_UNIT_PRICE'',
                              CStr ''EDGEN_UNIT_PRICE''],
                             [CStr ''1'', CStr ''GASKET, 2IN'', CObj ''10.5'' True (Some (Num (21 / 2))), CNone],
                             [CStr ''2'', CStr ''BOLT, M8'', CNone, CNone]]\<rparr>];
        p = \<lparr>format = ''B'', sheet = ''Bids'', bidders = [''EDGEN'', ''WHITCO''],
             items = [\<lparr>item_number = ''1'', item_type = ''GASKET'', item_spec = ''2IN'',
                       item_size = None, item_unit = None, item_quantity = None,
                       bids = [(''WHITCO'', \<lparr>unit_price = Some (Num (21 / 2)), ext_price = None\<rparr>),
                               (''EDGEN'', \<lparr>unit_price = None, ext_price = None\<rparr>)]\<rparr>,
                      \<lparr>item_number = ''2'', item_type = ''BOLT'', item_spec = ''M8'',
                       item_size = None, item_unit = None, item_quantity = None,
                       bids = [(''WHITCO'', \<lparr>unit_price = None, ext_price = None\<rparr>),
                               (''EDGEN'', \<lparr>unit_price = None, ext_price = None\<rparr>)]\<rparr>],
             ambiguities = [], rfq_map = [(''item_num'', 0), (''description'', 1)]\<rparr>;
        d = \<lparr>rfqs = [\<lparr>r_rfq_id = ''R1'', r_creator = None, r_station = None, r_project = None,
                       r_rfq_date = None, r_source_file = None, r_sheet_name = None,
                       r_is_potential = 0, r_notes = None\<rparr>],
             rfq_items = [\<lparr>i_id = 1, i_rfq_id = ''R1'', i_item_number = ''1'', i_item_type = ''GASKET'',
                            i_specification = ''2IN'', i_size = None, i_unit = None, i_quantity = None\<rparr>],
             bidders_tbl = [(1, ''EDGEN'')],
             bids_tbl = [\<lparr>b_id = 1, b_rfq_id = ''R1'', b_item_id = 1, b_bidder_id = 1,
                           b_unit_price = Some (Num 9), b_ext_price = None\<rparr>],
             seq_items = 1, seq_bidders = 1, seq_bids = 1\<rparr>;
        d' = load_parsed_rfq ''R1'' None None None None None None (Parsed p) False None d
    in parse_excel (\<lambda>s. None) wb None = Inr (Parsed p) \<and>
       (\<exists>ws hi hc.
          wb_get wb (sheet p) = Inr ws \<and> find_header_row (sheet_rows ws) = Some (hi, hc) \<and>
          bidders p = sort (map fst (snd (col_maps (sheet_rows ws) hi hc))) \<and>
          list_all2 (\<lambda>it row. bids it = map (bid_entry (\<lambda>s. None) row) (snd (col_maps (sheet_rows ws) hi hc)))
            (items p)
            (filter (\<lambda>row. is_data_row row (fst (col_maps (sheet_rows ws) hi hc)))
               (drop (hi + 1) (sheet_rows ws)))) \<and>
       bidders_wf d \<and> bidders_wf d' \<and> rfq_refs_ok d \<and> rfq_refs_ok d' \<and>
       list_all (\<lambda>r. b_rfq_id r \<noteq> ''R1'') (bids_tbl (delete_rfq_rows ''R1'' d)) \<and>
       (\<exists>news. bids_tbl d' = bids_tbl (delete_rfq_rows ''R1'' d) @ concat news \<and>
               list_all2 (\<lambda>new jt. list_all2 (stored_as d' ''R1'' (fst jt)) new
                                      (filter quoted (bids (snd jt))))
                 news (enumerate (seq_items d + 1) (result_items (Parsed p)))) \<and>
       bids_tbl d' = [\<lparr>b_id = 2, b_rfq_id = ''R1'', b_item_id = 2, b_bidder_id = 2,
                        b_unit_price = Some (Num (21 / 2)), b_ext_price = None\<rparr>])"
proof -
  let ?wb = "[\<lparr>title = ''Bids'', max_row = 3,
               sheet_rows = [[CStr ''ITEM #'', CStr ''DESCRIPTION'', CStr ''WHITCO_UNIT_PRICE'',
                              CStr ''EDGEN_UNIT_PRICE''],
                             [CStr ''1'', CStr ''GASKET, 2IN'', CObj ''10.5'' True (Some (Num (21 / 2))), CNone],
                             [CStr ''2'', CStr ''BOLT, M8'', CNone, CNone]]\<rparr>]"
  let ?P = "\<lparr>format = ''B'', sheet = ''Bids'', bidders = [''EDGEN'', ''WHITCO''],
             items = [\<lparr>item_number = ''1'', item_type = ''GASKET'', item_spec = ''2IN'',
                       item_size = None, item_unit = None, item_quantity = None,
                       bids = [(''WHITCO'', \<lparr>unit_price = Some (Num (21 / 2)), ext_price = None\<rparr>),
                               (''EDGEN'', \<lparr>unit_price = None, ext_price = None\<rparr>)]\<rparr>,
                      \<lparr>item_number = ''2'', item_type = ''BOLT'', item_spec = ''M8'',
                       item_size = None, item_unit = None, item_quantity = None,
                       bids = [(''WHITCO'', \<lparr>unit_price = None, ext_price = None\<rparr>),
                               (''EDGEN'', \<lparr>unit_price = None, ext_price = None\<rparr>)]\<rparr>],
             ambiguities = [], rfq_map = [(''item_num'', 0), (''description'', 1)]\<rparr>"
  let ?D = "\<lparr>rfqs = [\<lparr>r_rfq_id = ''R1'', r_creator = None, r_station = None, r_project = None,
                       r_rfq_date = None, r_source_file = None, r_sheet_name = None,
                       r_is_potential = 0, r_notes = None\<rparr>],
             rfq_items = [\<lparr>i_id = 1, i_rfq_id = ''R1'', i_item_number = ''1'', i_item_type = ''GASKET'',
                            i_specification = ''2IN'', i_size = None, i_unit = None, i_quantity = None\<rparr>],
             bidders_tbl = [(1, ''EDGEN'')],
             bids_tbl = [\<lparr>b_id = 1, b_rfq_id = ''R1'', b_item_id = 1, b_bidder_id = 1,
                           b_unit_price = Some (Num 9), b_ext_price = None\<rparr>],
             seq_items = 1, seq_bidders = 1, seq_bids = 1\<rparr>"
  let ?L = "load_parsed_rfq ''R1'' None None None None None None (Parsed ?P) False None ?D"
  have ev: "parse_excel (\<lambda>s. None) ?wb None = Inr (Parsed ?P)"
    by code_simp
  have wf: "bidders_wf ?D"
    by code_simp
  have fk: "rfq_refs_ok ?D"
    by code_simp
  have tbl: "bids_tbl ?L = [\<lparr>b_id = 2, b_rfq_id = ''R1'', b_item_id = 2, b_bidder_id = 2,
                        b_unit_price = Some (Num (21 / 2)), b_ext_price = None\<rparr>]"
    by code_simp
  note t = every_bidder_has_entry_loader_skips_unquoted
         [of "\<lambda>s. None" ?wb None ?P "''R1''" ?D None None None None None None "Parsed ?P" False None,
          unfolded Let_def]
  from t ev have a: "\<exists>ws hi hc.
          wb_get ?wb (sheet ?P) = Inr ws \<and> find_header_row (sheet_rows ws) = Some (hi, hc) \<and>
          bidders ?P = sort (map fst (snd (col_maps (sheet_rows ws) hi hc))) \<and>
          list_all2 (\<lambda>it row. bids it = map (bid_entry (\<lambda>s. None) row) (snd (col_maps (sheet_rows ws) hi hc)))
            (items ?P)
            (filter (\<lambda>row. is_data_row row (fst (col_maps (sheet_rows ws) hi hc)))
               (drop (hi + 1) (sheet_rows ws)))"
    by blast
  from t wf have w: "bidders_wf ?L" by blast
  from t fk have k: "rfq_refs_ok ?L"
    and g: "list_all (\<lambda>r. b_rfq_id r \<noteq> ''R1'') (bids_tbl (delete_rfq_rows ''R1'' ?D))"
    by blast+
  from t have b: "\<exists>news. bids_tbl ?L = bids_tbl (delete_rfq_rows ''R1'' ?D) @ concat news \<and>
               list_all2 (\<lambda>new jt. list_all2 (stored_as ?L ''R1'' (fst jt)) new
                                      (filter quoted (bids (snd jt))))
                 news (enumerate (seq_items ?D + 1) (result_items (Parsed ?P)))"
    by blast
  from ev a wf w fk k g b tbl show ?thesis unfolding Let_def by (intro conjI)
qed

text \<open>
  A value other than \<open>None\<close> need not be a price. The text \<^verbatim>\<open>nan\<close> in a price cell is
  read as not-a-number, which is not \<open>None\<close>: the entry passes the test of the loader and
  the bid row is stored with both prices \<^verbatim>\<open>NULL\<close>.
\<close>

lemma not_a_number_is_quoted_and_stored_null:
  "parse_excel (\<lambda>s. if s = ''nan'' then Some NaN else None)
     [\<lparr>title = ''Bids'', max_row = 2,
       sheet_rows = [[CStr ''ITEM #'', CStr ''DESCRIPTION'', CStr ''WHITCO_UNIT_PRICE''],
                     [CStr ''1'', CStr ''GASKET, 2IN'', CStr ''nan'']]\<rparr>]
     None =
   Inr (Parsed \<lparr>format = ''B'', sheet = ''Bids'', bidders = [''WHITCO''],
                items = [\<lparr>item_number = ''1'', item_type = ''GASKET'', item_spec = ''2IN'',
                          item_size = None, item_unit = None, item_quantity = None,
                          bids = [(''WHITCO'', \<lparr>unit_price = Some NaN, ext_price = None\<rparr>)]\<rparr>],
                ambiguities = [],
                rfq_map = [(''item_num'', 0), (''description'', 1)]\<rparr>) \<and>
   bids_tbl (load_parsed_rfq ''R1'' None None None None None None
      (Parsed \<lparr>format = ''B'', sheet = ''Bids'', bidders = [''WHITCO''],
                items = [\<lparr>item_number = ''1'', item_type = ''GASKET'', item_spec = ''2IN'',
                          item_size = None, item_unit = None, item_quantity = None,
                          bids = [(''WHITCO'', \<lparr>unit_price = Some NaN, ext_price = None\<rparr>)]\<rparr>],
                ambiguities = [],
                rfq_map = [(''item_num'', 0), (''description'', 1)]\<rparr>)
      False None
      \<lparr>rfqs = [], rfq_items = [], bidders_tbl = [], bids_tbl = [],
       seq_items = 0, seq_bidders = 0, seq_bids = 0\<rparr>) =
   [\<lparr>b_id = 1, b_rfq_id = ''R1'', b_item_id = 1, b_bidder_id = 1,
     b_unit_price = None, b_ext_price = None\<rparr>]"
  by code_simp

subsection \<open>Historical estimator\<close>

lemma hd_sort_key_least:
  assumes "xs \<noteq> []"
  shows "hd (sort_key f xs) \<in> set xs \<and> (\<forall>x \<in> set xs. f (hd (sort_key f xs)) \<le> f x)"
proof -
  let ?ys = "sort_key f xs"
  from assms have ne: "?ys \<noteq> []" by (metis length_0_conv length_sort)
  then obtain y ys where ys: "?ys = y # ys" by (cases ?ys) auto
  have "sorted (map f ?ys)" by (rule sorted_sort_key)
  with ys have "\<forall>x \<in> set ?ys. f y \<le> f x" by auto
  moreover have "set ?ys = set xs" by simp
  moreover from ys have "y \<in> set ?ys" by simp
  ultimately show ?thesis using ys by auto
qed

lemma best_score_is_Max:
  assumes "scored \<noteq> []"
  shows "fst (hd (sort_key (\<lambda>(score, c). - score) scored)) = Max (fst ` set (scored :: (rat \<times> 'a) list))"
proof -
  let ?h = "hd (sort_key (\<lambda>(score, c). - score) scored)"
  from hd_sort_key_least[OF assms, of "\<lambda>(score, c). - score"]
  have m: "?h \<in> set scored" and l: "\<forall>x \<in> set scored. (\<lambda>(score, c). - score) ?h \<le> (\<lambda>(score, c). - score) x"
    by blast+
  have "fst x \<le> fst ?h" if "x \<in> set scored" for x
    using l that by (cases x, cases ?h) auto
  with m show ?thesis by (intro Max_eqI[symmetric]) auto
qed

lemma dedup_matches_nonempty: "xs \<noteq> [] \<Longrightarrow> dedup_matches [] xs \<noteq> []"
  by (cases xs) (auto simp: Let_def)

lemma estimate_item_scored:
  assumes "scored_for hist_bids titem \<noteq> []"
  shows "\<exists>e. estimate_item hist_bids titem = (Some e, False) \<and>
             e_confidence e = confidence_of (Max (fst ` set (scored_for hist_bids titem)))"
proof -
  let ?cands = "filter (\<lambda>row. h_item_type row = t_item_type titem) hist_bids"
  let ?sc = "scored_for hist_bids titem"
  let ?so = "sort_key (\<lambda>(score, c). - score) ?sc"
  from assms have c: "?cands \<noteq> []" by (auto simp: scored_for_def scored_candidates_def)
  from assms have so: "?so \<noteq> []" by (metis length_0_conv length_sort)
  then have k: "map (\<lambda>(score, c). h_unit_price c) (dedup_matches [] ?so) \<noteq> []"
    by (simp add: dedup_matches_nonempty)
  from assms c k show ?thesis
    unfolding estimate_item_def Let_def
    by (simp add: scored_for_def[symmetric] best_score_is_Max[OF assms])
qed

lemma estimate_item_unscored:
  assumes "scored_for hist_bids titem = []"
  shows "estimate_item hist_bids titem = (Some (none_estimate titem), True)"
  using assms unfolding estimate_item_def Let_def
  by (simp add: scored_for_def[symmetric])

text \<open>
  C9. For a target item the estimator retains exactly the historical bids of the item's
  type that score at least 0.25. When some are retained, the item gets an estimate whose
  confidence is HIGH if the best retained score is at least 0.55, MEDIUM if it is at
  least 0.30, and LOW otherwise. When none is retained, the entry is the one with
  confidence NONE, in which every estimate field is null.
\<close>

theorem estimator_retention_and_confidence:
  "(\<forall>sc \<in> set (scored_for hist_bids titem). 1 / 4 \<le> fst sc \<and> fst sc = score_for titem (snd sc)) \<and>
   (\<forall>c \<in> set hist_bids. h_item_type c = t_item_type titem \<and> 1 / 4 \<le> score_for titem c \<longrightarrow>
        (score_for titem c, c) \<in> set (scored_for hist_bids titem)) \<and>
   (scored_for hist_bids titem \<noteq> [] \<longrightarrow>
      (\<exists>e. estimate_item hist_bids titem = (Some e, False) \<and>
           e_confidence e =
             (if 11 / 20 \<le> Max (fst ` set (scored_for hist_bids titem)) then HIGH
              else if 3 / 10 \<le> Max (fst ` set (scored_for hist_bids titem)) then MEDIUM
              else LOW))) \<and>
   (scored_for hist_bids titem = [] \<longrightarrow>
      estimate_item hist_bids titem = (Some (none_estimate titem), True)) \<and>
   e_confidence (none_estimate titem) = NONE \<and>
   est_unit_min (none_estimate titem) = None \<and> est_unit_mean (none_estimate titem) = None \<and>
   est_unit_max (none_estimate titem) = None \<and> est_ext_mean (none_estimate titem) = None"
proof -
  have a: "\<forall>sc \<in> set (scored_for hist_bids titem). 1 / 4 \<le> fst sc \<and> fst sc = score_for titem (snd sc)"
    by (auto simp: scored_for_def scored_candidates_def score_for_def)
  have b: "\<forall>c \<in> set hist_bids. h_item_type c = t_item_type titem \<and> 1 / 4 \<le> score_for titem c \<longrightarrow>
        (score_for titem c, c) \<in> set (scored_for hist_bids titem)"
    by (auto simp: scored_for_def scored_candidates_def score_for_def)
  have c: "scored_for hist_bids titem \<noteq> [] \<longrightarrow>
      (\<exists>e. estimate_item hist_bids titem = (Some e, False) \<and>
           e_confidence e =
             (if 11 / 20 \<le> Max (fst ` set (scored_for hist_bids titem)) then HIGH
              else if 3 / 10 \<le> Max (fst ` set (scored_for hist_bids titem)) then MEDIUM
              else LOW))"
    using estimate_item_scored[of hist_bids titem] by (simp add: confidence_of_def)
  have d: "scored_for hist_bids titem = [] \<longrightarrow>
      estimate_item hist_bids titem = (Some (none_estimate titem), True)"
    using estimate_item_unscored by blast
  have e: "e_confidence (none_estimate titem) = NONE \<and>
   est_unit_min (none_estimate titem) = None \<and> est_unit_mean (none_estimate titem) = None \<and>
   est_unit_max (none_estimate titem) = None \<and> est_ext_mean (none_estimate titem) = None"
    by (simp add: none_estimate_def)
  from a b c d e show ?thesis by blast
qed


theorem estimator_retention_and_confidence_witness:
  "e_confidence (the (fst (estimate_item
      [\<lparr>h_item_type = Some ''PIPE'', h_specification = Some ''smls nps 2 sch 40'', h_size = Some '' 2IN'',
        h_rfq_id = ''R1'', h_rfq_date = None, h_bidder = ''A'', h_unit_price = 10\<rparr>,
       \<lparr>h_item_type = Some ''PIPE'', h_specification = Some ''welded'', h_size = None,
        h_rfq_id = ''R1'', h_rfq_date = None, h_bidder = ''B'', h_unit_price = 12\<rparr>]
      \<lparr>t_item_number = Some ''1'', t_item_type = Some ''PIPE'', t_specification = Some ''SMLS, NPS 2, SCH 80'',
       t_size = Some ''2in'', t_unit = None, t_quantity = Some 3\<rparr>))) = HIGH \<and>
   estimate_item
      [\<lparr>h_item_type = Some ''PIPE'', h_specification = Some ''smls nps 2 sch 40'', h_size = Some '' 2IN'',
        h_rfq_id = ''R1'', h_rfq_date = None, h_bidder = ''A'', h_unit_price = 10\<rparr>,
       \<lparr>h_item_type = Some ''PIPE'', h_specification = Some ''welded'', h_size = None,
        h_rfq_id = ''R1'', h_rfq_date = None, h_bidder = ''B'', h_unit_price = 12\<rparr>]
      \<lparr>t_item_number = Some ''2'', t_item_type = Some ''PIPE'', t_specification = Some ''ERW, NPS 6'',
       t_size = None, t_unit = None, t_quantity = None\<rparr>
   = (Some (none_estimate
        \<lparr>t_item_number = Some ''2'', t_item_type = Some ''PIPE'', t_specification = Some ''ERW, NPS 6'',
         t_size = None, t_unit = None, t_quantity = None\<rparr>), True)"
proof -
  let ?H = "[\<lparr>h_item_type = Some ''PIPE'', h_specification = Some ''smls nps 2 sch 40'', h_size = Some '' 2IN'',
        h_rfq_id = ''R1'', h_rfq_date = None, h_bidder = ''A'', h_unit_price = 10\<rparr>,
       \<lparr>h_item_type = Some ''PIPE'', h_specification = Some ''welded'', h_size = None,
        h_rfq_id = ''R1'', h_rfq_date = None, h_bidder = ''B'', h_unit_price = 12\<rparr>]"
  let ?T = "\<lparr>t_item_number = Some ''1'', t_item_type = Some ''PIPE'', t_specification = Some ''SMLS, NPS 2, SCH 80'',
       t_size = Some ''2in'', t_unit = None, t_quantity = Some 3\<rparr>"
  let ?T2 = "\<lparr>t_item_number = Some ''2'', t_item_type = Some ''PIPE'', t_specification = Some ''ERW, NPS 6'',
       t_size = None, t_unit = None, t_quantity = None\<rparr>"
  have ne: "scored_for ?H ?T \<noteq> []" by code_simp
  have mx: "Max (fst ` set (scored_for ?H ?T)) = 4 / 5" by code_simp
  have em: "scored_for ?H ?T2 = []" by code_simp
  from estimator_retention_and_confidence [of ?H ?T] ne mx
  obtain e where "estimate_item ?H ?T = (Some e, False)" "e_confidence e = HIGH"
    by auto
  then have "e_confidence (the (fst (estimate_item ?H ?T))) = HIGH" by simp
  moreover from estimator_retention_and_confidence [of ?H ?T2] em
  have "estimate_item ?H ?T2 = (Some (none_estimate ?T2), True)" by blast
  ultimately show ?thesis by blast
qed

subsection \<open>Bidder-row extractor\<close>

lemma price_synonym_not_rfq:
  assumes "norm_cell h \<in> set UNIT_PRICE_SYNONYMS \<or> norm_cell h \<in> set EXT_PRICE_SYNONYMS"
  shows "h \<noteq> CNone" "\<not> matches h ITEM_NUM_SYNONYMS" "\<not> matches h DESC_SYNONYMS"
        "\<not> matches h UNIT_SYNONYMS" "\<not> matches h QTY_SYNONYMS" "\<not> matches h SIZE_SYNONYMS"
proof -
  from assms show "h \<noteq> CNone"
    by (auto simp: norm_cell_def UNIT_PRICE_SYNONYMS_def EXT_PRICE_SYNONYMS_def)
  from assms show "\<not> matches h ITEM_NUM_SYNONYMS"
    by (auto simp: matches_def UNIT_PRICE_SYNONYMS_def EXT_PRICE_SYNONYMS_def ITEM_NUM_SYNONYMS_def)
  from assms show "\<not> matches h DESC_SYNONYMS"
    by (auto simp: matches_def UNIT_PRICE_SYNONYMS_def EXT_PRICE_SYNONYMS_def DESC_SYNONYMS_def)
  from assms show "\<not> matches h UNIT_SYNONYMS"
    by (auto simp: matches_def UNIT_PRICE_SYNONYMS_def EXT_PRICE_SYNONYMS_def UNIT_SYNONYMS_def)
  from assms show "\<not> matches h QTY_SYNONYMS"
    by (auto simp: matches_def UNIT_PRICE_SYNONYMS_def EXT_PRICE_SYNONYMS_def QTY_SYNONYMS_def)
  from assms show "\<not> matches h SIZE_SYNONYMS"
    by (auto simp: matches_def UNIT_PRICE_SYNONYMS_def EXT_PRICE_SYNONYMS_def SIZE_SYNONYMS_def)
qed

lemma format_ac_col_roles:
  "snd (format_ac_col (k, h) (rm, cr)) =
     (case price_role h of None \<Rightarrow> cr | Some r \<Rightarrow> AList.update k r cr)"
proof (cases "norm_cell h \<in> set UNIT_PRICE_SYNONYMS \<or> norm_cell h \<in> set EXT_PRICE_SYNONYMS")
  case True
  note n = price_synonym_not_rfq[OF True]
  from True n show ?thesis by (auto simp: format_ac_col_def price_role_def)
next
  case False
  then show ?thesis by (auto simp: format_ac_col_def price_role_def)
qed

lemma header_roles_aux:
  "\<forall>c \<in> fst ` set cr. c < k \<Longrightarrow>
   set (snd (fold format_ac_col (enumerate k hs) (rm, cr))) =
     set cr \<union> {(k + i, r) | i r. i < length hs \<and> price_role (hs ! i) = Some r}"
proof (induction hs arbitrary: k rm cr)
  case Nil
  then show ?case by simp
next
  case (Cons h hs)
  obtain rm1 cr1 where st: "format_ac_col (k, h) (rm, cr) = (rm1, cr1)"
    by (cases "format_ac_col (k, h) (rm, cr)")
  have nk: "k \<notin> fst ` set cr" using Cons.prems by auto
  from st format_ac_col_roles[of k h rm cr]
  have cr1: "cr1 = (case price_role h of None \<Rightarrow> cr | Some r \<Rightarrow> cr @ [(k, r)])"
    by (simp add: update_new_key[OF nk] split: option.splits)
  then have s1: "set cr1 = set cr \<union> {(k, r) | r. price_role h = Some r}"
    by (auto split: option.splits)
  then have "\<forall>c \<in> fst ` set cr1. c < Suc k" using Cons.prems by (auto simp: less_SucI)
  from Cons.IH[OF this, of rm1] st
  have "set (snd (fold format_ac_col (enumerate k (h # hs)) (rm, cr))) =
        set cr1 \<union> {(Suc k + i, r) | i r. i < length hs \<and> price_role (hs ! i) = Some r}"
    by simp
  also have "\<dots> = set cr \<union> {(k + i, r) | i r. i < length (h # hs) \<and> price_role ((h # hs) ! i) = Some r}"
    (is "?L = ?R")
  proof (intro set_eqI iffI)
    fix x assume "x \<in> ?L"
    then consider "x \<in> set cr" | r where "x = (k, r)" "price_role h = Some r"
      | i r where "x = (Suc k + i, r)" "i < length hs" "price_role (hs ! i) = Some r"
      using s1 by auto
    then show "x \<in> ?R"
    proof cases
      case 1
      then show ?thesis by simp
    next
      case 2
      then have "x = (k + 0, r) \<and> 0 < length (h # hs) \<and> price_role ((h # hs) ! 0) = Some r" by simp
      then show ?thesis by blast
    next
      case 3
      then have "x = (k + Suc i, r) \<and> Suc i < length (h # hs) \<and> price_role ((h # hs) ! Suc i) = Some r"
        by simp
      then show ?thesis by blast
    qed
  next
    fix x assume "x \<in> ?R"
    then consider "x \<in> set cr"
      | i r where "x = (k + i, r)" "i < length (h # hs)" "price_role ((h # hs) ! i) = Some r"
      by auto
    then show "x \<in> ?L"
    proof cases
      case 1
      with s1 show ?thesis by simp
    next
      case 2
      show ?thesis
      proof (cases i)
        case 0
        with 2 s1 show ?thesis by simp
      next
        case (Suc j)
        with 2 have "x = (Suc k + j, r) \<and> j < length hs \<and> price_role (hs ! j) = Some r" by simp
        then show ?thesis by blast
      qed
    qed
  qed
  finally show ?case .
qed

lemma header_roles_iff:
  "(c, r) \<in> set (snd (header_roles hs)) \<longleftrightarrow> c < length hs \<and> price_role (hs ! c) = Some r"
  unfolding header_roles_def using header_roles_aux[of "[]" 0 hs "[]"] by auto

lemma owner_loop_sorted:
  "sorted xs \<Longrightarrow>
   owner_loop ow c xs = (if \<exists>x \<in> set xs. x \<le> c then Some (Max {x \<in> set xs. x \<le> c}) else ow)"
proof (induction xs arbitrary: ow)
  case Nil
  then show ?case by simp
next
  case (Cons x xs)
  from Cons.prems have s: "sorted xs" and le: "\<forall>y \<in> set xs. x \<le> y" by auto
  show ?case
  proof (cases "x \<le> c")
    case False
    with le have "\<not> (\<exists>y \<in> set (x # xs). y \<le> c)" by auto
    with False show ?thesis by simp
  next
    case True
    show ?thesis
    proof (cases "\<exists>y \<in> set xs. y \<le> c")
      case False
      then have "{y \<in> set (x # xs). y \<le> c} = {x}" using True by auto
      with True False Cons.IH[OF s, of "Some x"] show ?thesis by simp
    next
      case ex: True
      let ?A = "{y \<in> set xs. y \<le> c}"
      have fin: "finite ?A" and ne: "?A \<noteq> {}" using ex by auto
      have "{y \<in> set (x # xs). y \<le> c} = insert x ?A" using True by auto
      moreover have "Max (insert x ?A) = Max ?A"
      proof -
        from ne obtain y where "y \<in> ?A" by blast
        with le have "x \<le> y" by auto
        also from \<open>y \<in> ?A\<close> fin have "y \<le> Max ?A" by (intro Max_ge)
        finally have "x \<le> Max ?A" .
        with fin ne show ?thesis by (simp add: max_def)
      qed
      ultimately show ?thesis using True ex Cons.IH[OF s, of "Some x"] by simp
    qed
  qed
qed

lemma bidder_for_col_nearest:
  "bidder_for_col names c =
     (if \<exists>bc \<in> fst ` set names. bc \<le> c then map_of names (Max {bc \<in> fst ` set names. bc \<le> c})
      else None)"
proof -
  have "owner_loop None c (sort (map fst names)) =
          (if \<exists>x \<in> set (sort (map fst names)). x \<le> c
           then Some (Max {x \<in> set (sort (map fst names)). x \<le> c}) else None)"
    by (rule owner_loop_sorted) simp
  then show ?thesis by (simp add: bidder_for_col_def)
qed

lemma bidder_col_set:
  "bidder_col (set_bidder_col n' r' c bm) n r = (if n = n' \<and> r = r' then Some c else bidder_col bm n r)"
  by (auto simp: bidder_col_def set_bidder_col_def update_conv' split: option.splits)

lemma bidder_col_assign:
  "bidder_col (assign_col names (c, r') bm) n r =
     (if r' = r \<and> bidder_for_col names c = Some n \<and> n \<noteq> [] then Some c else bidder_col bm n r)"
  by (auto simp: assign_col_def bidder_col_set split: option.splits)

lemma bidder_col_fold:
  "bidder_col (fold (assign_col names) cr bm) n r =
     (if assigned names n r cr = [] then bidder_col bm n r
      else Some (fst (last (assigned names n r cr))))"
proof (induction cr arbitrary: bm)
  case Nil
  then show ?case by (simp add: assigned_def)
next
  case (Cons x cr)
  obtain c r' where x: "x = (c, r')" by (cases x)
  show ?case
    using Cons.IH[of "assign_col names (c, r') bm"]
    by (auto simp: x assigned_def bidder_col_assign)
qed

lemma bidder_candidate_nonempty: "bidder_candidate val = Some n \<Longrightarrow> n \<noteq> []"
  by (auto simp: bidder_candidate_def Let_def upper_def split: if_splits)

lemma row_candidates_nonempty: "(c, n) \<in> set (row_candidates row) \<Longrightarrow> n \<noteq> []"
  by (auto simp: row_candidates_def map_filter_def dest: bidder_candidate_nonempty)

lemma bidder_rows_nonempty:
  "\<forall>(c, n) \<in> set (fst st). n \<noteq> [] \<Longrightarrow>
   \<forall>(c, n) \<in> set (fst (fold bidder_row_step rs st)). n \<noteq> []"
proof (induction rs arbitrary: st)
  case Nil
  then show ?case by simp
next
  case (Cons r rs)
  have "\<forall>(c, n) \<in> set (fst (bidder_row_step r st)). n \<noteq> []"
    using Cons.prems by (auto simp: bidder_row_step_def Let_def dest: row_candidates_nonempty)
  from Cons.IH[OF this] show ?case by simp
qed

lemma bidder_names_nonempty:
  "(c, n) \<in> set (find_bidder_names_above rows hi) \<Longrightarrow> n \<noteq> []"
  using bidder_rows_nonempty[of "([], 0)" "take hi rows"]
  by (auto simp: find_bidder_names_above_def)

lemma bidder_for_col_nonempty:
  assumes "bidder_for_col (find_bidder_names_above rows hi) c = Some n"
  shows "n \<noteq> []"
proof -
  from assms have "(\<exists>k. map_of (find_bidder_names_above rows hi) k = Some n)"
    by (auto simp: bidder_for_col_def split: option.splits)
  then obtain k where "(k, n) \<in> set (find_bidder_names_above rows hi)"
    by (auto dest: map_of_SomeD)
  then show ?thesis by (rule bidder_names_nonempty)
qed

lemma header_roles_sorted_aux:
  "sorted (map fst cr) \<Longrightarrow> \<forall>c \<in> fst ` set cr. c < k \<Longrightarrow>
   sorted (map fst (snd (fold format_ac_col (enumerate k hs) (rm, cr))))"
proof (induction hs arbitrary: k rm cr)
  case Nil
  then show ?case by simp
next
  case (Cons h hs)
  obtain rm1 cr1 where st: "format_ac_col (k, h) (rm, cr) = (rm1, cr1)"
    by (cases "format_ac_col (k, h) (rm, cr)")
  have "cr1 = cr \<or> (\<exists>v. cr1 = AList.update k v cr)"
    using st by (auto simp: format_ac_col_def split: if_splits)
  moreover have "k \<notin> set (map fst cr)" using Cons.prems(2) by auto
  ultimately have d: "map fst cr1 = map fst cr \<or> map fst cr1 = map fst cr @ [k]"
    by (auto simp: update_keys)
  have b: "\<forall>c \<in> set (map fst cr). c < k" using Cons.prems(2) by auto
  from d b Cons.prems(1) have "sorted (map fst cr1)"
    by (auto simp del: set_map simp: sorted_append less_imp_le)
  moreover from d b have "\<forall>c \<in> set (map fst cr1). c < Suc k"
    by (auto simp del: set_map simp: less_SucI)
  then have "\<forall>c \<in> fst ` set cr1. c < Suc k" by simp
  ultimately have "sorted (map fst cr1)" and "\<forall>c \<in> fst ` set cr1. c < Suc k" by blast+
  from Cons.IH[OF this] st show ?case by simp
qed

lemma header_roles_sorted: "sorted (map fst (snd (header_roles hs)))"
  unfolding header_roles_def by (rule header_roles_sorted_aux) simp_all

lemma sorted_le_last: "sorted xs \<Longrightarrow> x \<in> set xs \<Longrightarrow> x \<le> last (xs :: 'a::linorder list)"
  by (induction xs) auto

lemma sorted_last_Max: "sorted xs \<Longrightarrow> xs \<noteq> [] \<Longrightarrow> last xs = Max (set (xs :: nat list))"
proof -
  assume s: "sorted xs" and ne: "xs \<noteq> []"
  have "Max (set xs) = last xs"
  proof (rule Max_eqI)
    show "finite (set xs)" by simp
    show "y \<le> last xs" if "y \<in> set xs" for y using s that by (rule sorted_le_last)
    show "last xs \<in> set xs" using ne by (rule last_in_set)
  qed
  then show ?thesis by simp
qed

lemma owned_cols_assigned:
  "owned_cols rows hi hc n r =
     set (map fst (assigned (find_bidder_names_above rows hi) n r (snd (header_roles hc))))"
proof -
  have "(\<lambda>(c, r'). r' = r \<and> bidder_for_col (find_bidder_names_above rows hi) c = Some n) =
        (\<lambda>(c, r'). r' = r \<and> bidder_for_col (find_bidder_names_above rows hi) c = Some n \<and> n \<noteq> [])"
    by (auto simp: fun_eq_iff dest: bidder_for_col_nonempty)
  then show ?thesis by (simp add: owned_cols_def assigned_def)
qed

text \<open>
  C7, as the code has it. In the bidder-row format the recognised price columns are the
  header cells that are unit price or extended price synonyms. The owner of a price column
  is the bidder named at the greatest bidder-name column at or to the left of it; a column
  to the left of every bidder-name column has no owner and is in no entry of the bidder
  map. The claim gives every price column with an owner to that owner. The map has one
  column for a bidder and a role, and the loop writes it again for each further column:
  what \<^verbatim>\<open>bidder_map[name][role]\<close> holds in the end is the last, that is the greatest, of the
  price columns of that role that the bidder owns, and it is missing exactly when the bidder
  owns none. An earlier price column of the same owner and role is replaced and gives no
  bid.
\<close>

theorem price_column_kept_is_last_of_owner:
  "(\<forall>c r. (c, r) \<in> set (snd (header_roles header_cols)) \<longleftrightarrow>
        c < length header_cols \<and> price_role (header_cols ! c) = Some r) \<and>
   (\<forall>c. bidder_for_col (find_bidder_names_above rows header_idx) c =
          (if \<exists>bc \<in> fst ` set (find_bidder_names_above rows header_idx). bc \<le> c
           then map_of (find_bidder_names_above rows header_idx)
                  (Max {bc \<in> fst ` set (find_bidder_names_above rows header_idx). bc \<le> c})
           else None)) \<and>
   (\<forall>n r c. c \<in> owned_cols rows header_idx header_cols n r \<longleftrightarrow>
        (c, r) \<in> set (snd (header_roles header_cols)) \<and>
        bidder_for_col (find_bidder_names_above rows header_idx) c = Some n) \<and>
   (\<forall>n r. bidder_col (snd (parse_format_ac rows header_idx header_cols)) n r =
        (if owned_cols rows header_idx header_cols n r = {} then None
         else Some (Max (owned_cols rows header_idx header_cols n r)))) \<and>
   (\<forall>c r. (c, r) \<in> set (snd (header_roles header_cols)) \<and>
          bidder_for_col (find_bidder_names_above rows header_idx) c = None \<longrightarrow>
          (\<forall>n r'. bidder_col (snd (parse_format_ac rows header_idx header_cols)) n r' \<noteq> Some c))"
proof -
  let ?names = "find_bidder_names_above rows header_idx"
  let ?cr = "snd (header_roles header_cols)"
  let ?bm = "snd (parse_format_ac rows header_idx header_cols)"
  let ?own = "owned_cols rows header_idx header_cols"
  have bm: "?bm = fold (assign_col ?names) ?cr []"
    by (simp add: parse_format_ac_def Let_def split: prod.splits)
  have look: "bidder_col ?bm n r =
      (if assigned ?names n r ?cr = [] then None else Some (fst (last (assigned ?names n r ?cr))))" for n r
    unfolding bm bidder_col_fold by (simp add: bidder_col_def)
  have own: "c \<in> ?own n r \<longleftrightarrow> (c, r) \<in> set ?cr \<and> bidder_for_col ?names c = Some n" for n r c
    by (force simp: owned_cols_def)
  have kept: "bidder_col ?bm n r = (if ?own n r = {} then None else Some (Max (?own n r)))" for n r
  proof (cases "assigned ?names n r ?cr = []")
    case True
    then have "?own n r = {}" by (simp add: owned_cols_assigned)
    with True look[of n r] show ?thesis by simp
  next
    case False
    then have ne: "map fst (assigned ?names n r ?cr) \<noteq> []" by simp
    have "sorted (map fst (assigned ?names n r ?cr))"
      unfolding assigned_def using header_roles_sorted[of header_cols] by (simp add: sorted_filter)
    from sorted_last_Max[OF this ne]
    have "fst (last (assigned ?names n r ?cr)) = Max (?own n r)"
      using False by (simp add: owned_cols_assigned last_map)
    moreover from False have "?own n r \<noteq> {}" by (simp add: owned_cols_assigned)
    ultimately show ?thesis using False look[of n r] by simp
  qed
  have dropped: "bidder_col ?bm n r' \<noteq> Some c" if "bidder_for_col ?names c = None" for c n r'
  proof
    assume a: "bidder_col ?bm n r' = Some c"
    with kept[of n r'] have ne: "?own n r' \<noteq> {}" and c: "c = Max (?own n r')"
      by (auto split: if_splits)
    have "finite (?own n r')" by (simp add: owned_cols_def)
    from Max_in[OF this ne] c have "c \<in> ?own n r'" by simp
    with own[of c n r'] that show False by simp
  qed
  have roles: "\<forall>c r. (c, r) \<in> set ?cr \<longleftrightarrow> c < length header_cols \<and> price_role (header_cols ! c) = Some r"
    by (simp add: header_roles_iff)
  have near: "\<forall>c. bidder_for_col ?names c =
          (if \<exists>bc \<in> fst ` set ?names. bc \<le> c
           then map_of ?names (Max {bc \<in> fst ` set ?names. bc \<le> c}) else None)"
    by (simp only: bidder_for_col_nearest[symmetric]) simp
  from own have own': "\<forall>n r c. c \<in> ?own n r \<longleftrightarrow> (c, r) \<in> set ?cr \<and> bidder_for_col ?names c = Some n"
    by blast
  from kept have kept': "\<forall>n r. bidder_col ?bm n r = (if ?own n r = {} then None else Some (Max (?own n r)))"
    by blast
  from dropped have dropped': "\<forall>c r. (c, r) \<in> set ?cr \<and> bidder_for_col ?names c = None \<longrightarrow>
          (\<forall>n r'. bidder_col ?bm n r' \<noteq> Some c)"
    by blast
  from roles near own' kept' dropped' show ?thesis by (intro conjI)
qed

text \<open>
  The scenario of the specification refutes the claim. SMP is named at column 0 and EDGEN at
  column 2, the header has a unit price at columns 2 and 3. Column 1 is the description and
  no price column; both price columns are owned by EDGEN, the nearest bidder at or to the
  left. Column 3 replaces column 2, SMP gets no column, and the price in column 2 is in no
  bid.
\<close>

theorem second_unit_price_column_replaces_first:
  "snd (parse_format_ac
          [[CStr ''SMP'', CStr [], CStr ''EDGEN'', CStr []],
           [CStr ''ITEM #'', CStr ''DESC'', CStr ''UNIT PRICE'', CStr ''UNIT PRICE'']] 1
          [CStr ''ITEM #'', CStr ''DESC'', CStr ''UNIT PRICE'', CStr ''UNIT PRICE'']) =
     [(''EDGEN'', [(''unit_price'', 3)])] \<and>
   snd (header_roles [CStr ''ITEM #'', CStr ''DESC'', CStr ''UNIT PRICE'', CStr ''UNIT PRICE'']) =
     [(2, ''unit_price''), (3, ''unit_price'')] \<and>
   find_bidder_names_above
     [[CStr ''SMP'', CStr [], CStr ''EDGEN'', CStr []],
      [CStr ''ITEM #'', CStr ''DESC'', CStr ''UNIT PRICE'', CStr ''UNIT PRICE'']] 1 =
     [(0, ''SMP''), (2, ''EDGEN'')] \<and>
   bidder_for_col [(0, ''SMP''), (2, ''EDGEN'')] 2 = Some ''EDGEN'' \<and>
   bidder_for_col [(0, ''SMP''), (2, ''EDGEN'')] 3 = Some ''EDGEN'' \<and>
   parse_excel (\<lambda>s. None)
     [\<lparr>title = ''Bids'', max_row = 3,
       sheet_rows = [[CStr ''SMP'', CStr [], CStr ''EDGEN'', CStr []],
                     [CStr ''ITEM #'', CStr ''DESC'', CStr ''UNIT PRICE'', CStr ''UNIT PRICE''],
                     [CStr ''1'', CStr ''GASKET, 2IN'', CObj ''10.5'' True (Some (Num (21 / 2))),
                      CObj ''11'' True (Some (Num 11))]]\<rparr>]
     None =
   Inr (Parsed \<lparr>format = ''AC'', sheet = ''Bids'', bidders = [''EDGEN''],
                items = [\<lparr>item_number = ''1'', item_type = ''GASKET'', item_spec = ''2IN'',
                          item_size = None, item_unit = None, item_quantity = None,
                          bids = [(''EDGEN'', \<lparr>unit_price = Some (Num 11), ext_price = None\<rparr>)]\<rparr>],
                ambiguities = [],
                rfq_map = [(''item_num'', 0), (''description'', 1)]\<rparr>)"
  by code_simp

text \<open>
  The statement on a header with three unit cost columns under SMP and EDGEN: SMP owns
  columns 2 and 3 and keeps column 3, and column 1, left of both names, is dropped.
\<close>

theorem price_column_kept_is_last_of_owner_witness:
  "bidder_col (snd (parse_format_ac
             [[CNone, CNone, CStr ''SMP'', CStr [], CStr ''EDGEN'', CStr []]] 1
             [CStr ''ITEM #'', CStr ''unit cost'', CStr ''UNIT PRICE'', CStr ''unit cost'',
              CStr ''unit cost'', CStr ''ext. cost'']))
           ''SMP'' ''unit_price'' = Some 3 \<and>
   (\<forall>n r'. bidder_col (snd (parse_format_ac
             [[CNone, CNone, CStr ''SMP'', CStr [], CStr ''EDGEN'', CStr []]] 1
             [CStr ''ITEM #'', CStr ''unit cost'', CStr ''UNIT PRICE'', CStr ''unit cost'',
              CStr ''unit cost'', CStr ''ext. cost'']))
           n r' \<noteq> Some 1)"
proof -
  let ?R = "[[CNone, CNone, CStr ''SMP'', CStr [], CStr ''EDGEN'', CStr []]]"
  let ?H = "[CStr ''ITEM #'', CStr ''unit cost'', CStr ''UNIT PRICE'', CStr ''unit cost'',
              CStr ''unit cost'', CStr ''ext. cost'']"
  have m: "(1, ''unit_price'') \<in> set (snd (header_roles ?H))"
    by code_simp
  have o: "bidder_for_col (find_bidder_names_above ?R 1) 1 = None"
    by code_simp
  have w: "owned_cols ?R 1 ?H ''SMP'' ''unit_price'' = {2, 3}"
    by code_simp
  note t = price_column_kept_is_last_of_owner [where rows = ?R and header_idx = 1 and header_cols = ?H]
  note k = t [THEN conjunct2, THEN conjunct2, THEN conjunct2, THEN conjunct1, rule_format]
  note p = t [THEN conjunct2, THEN conjunct2, THEN conjunct2, THEN conjunct2, rule_format]
  have "bidder_col (snd (parse_format_ac ?R 1 ?H)) ''SMP'' ''unit_price'' = Some 3"
    unfolding k w by simp
  moreover from p[OF conjI[OF m o]]
  have "\<forall>n r'. bidder_col (snd (parse_format_ac ?R 1 ?H)) n r' \<noteq> Some 1" by blast
  ultimately show ?thesis by blast
qed

subsection \<open>Subset-award optimizer\<close>

lemma eval_fold:
  "fold (eval_step ic bs) ids (t, c, u) =
     (t + sum_list (map (item_min ic bs) ids),
      c + length (filter (\<lambda>iid. costs_here ic bs iid \<noteq> []) ids),
      u @ filter (\<lambda>iid. costs_here ic bs iid = []) ids)"
  by (induction ids arbitrary: t c u) (auto simp: eval_step_def item_min_def Let_def)

lemma eval_subset_eq:
  "eval_subset ic ids bs =
     (sum_list (map (item_min ic bs) ids),
      length (filter (\<lambda>iid. costs_here ic bs iid \<noteq> []) ids),
      filter (\<lambda>iid. costs_here ic bs iid = []) ids)"
  by (simp add: eval_subset_def eval_fold)

lemma best_fold_Some:
  "fold (best_step ic ids) cs (Some bc, Some b, cv, un) = st' \<Longrightarrow>
   (st' = (Some bc, Some b, cv, un) \<and> (\<forall>c' \<in> set cs. bc \<le> subset_cost ic ids c')) \<or>
   (\<exists>pre c post. cs = pre @ c # post \<and>
      st' = (Some (subset_cost ic ids c), Some c, fst (snd (eval_subset ic ids c)), snd (snd (eval_subset ic ids c))) \<and>
      subset_cost ic ids c < bc \<and>
      (\<forall>c' \<in> set pre. subset_cost ic ids c < subset_cost ic ids c') \<and>
      (\<forall>c' \<in> set post. subset_cost ic ids c \<le> subset_cost ic ids c'))"
proof (induction cs arbitrary: bc b cv un)
  case Nil
  then show ?case by simp
next
  case (Cons c0 cs)
  let ?e = "eval_subset ic ids c0"
  show ?case
  proof (cases "subset_cost ic ids c0 < bc")
    case True
    then have step: "best_step ic ids c0 (Some bc, Some b, cv, un) =
        (Some (subset_cost ic ids c0), Some c0, fst (snd ?e), snd (snd ?e))"
      by (cases ?e) (simp add: best_step_def subset_cost_def)
    with Cons.prems have f: "fold (best_step ic ids) cs
        (Some (subset_cost ic ids c0), Some c0, fst (snd ?e), snd (snd ?e)) = st'" by simp
    from Cons.IH[OF f] show ?thesis
    proof
      assume a: "st' = (Some (subset_cost ic ids c0), Some c0, fst (snd ?e), snd (snd ?e)) \<and>
                 (\<forall>c' \<in> set cs. subset_cost ic ids c0 \<le> subset_cost ic ids c')"
      with True show ?thesis
        by (intro disjI2 exI[of _ "[]"] exI[of _ c0] exI[of _ cs]) simp
    next
      assume "\<exists>pre c post. cs = pre @ c # post \<and>
        st' = (Some (subset_cost ic ids c), Some c, fst (snd (eval_subset ic ids c)), snd (snd (eval_subset ic ids c))) \<and>
        subset_cost ic ids c < subset_cost ic ids c0 \<and>
        (\<forall>c' \<in> set pre. subset_cost ic ids c < subset_cost ic ids c') \<and>
        (\<forall>c' \<in> set post. subset_cost ic ids c \<le> subset_cost ic ids c')"
      then obtain pre c post where p: "cs = pre @ c # post"
        "st' = (Some (subset_cost ic ids c), Some c, fst (snd (eval_subset ic ids c)), snd (snd (eval_subset ic ids c)))"
        "subset_cost ic ids c < subset_cost ic ids c0"
        "\<forall>c' \<in> set pre. subset_cost ic ids c < subset_cost ic ids c'"
        "\<forall>c' \<in> set post. subset_cost ic ids c \<le> subset_cost ic ids c'" by blast
      from p(1) have "c0 # cs = (c0 # pre) @ c # post" by simp
      moreover from p(3,4) have "\<forall>c' \<in> set (c0 # pre). subset_cost ic ids c < subset_cost ic ids c'" by simp
      moreover from p(3) True have "subset_cost ic ids c < bc" by simp
      ultimately show ?thesis using p(2,5) by blast
    qed
  next
    case False
    then have step: "best_step ic ids c0 (Some bc, Some b, cv, un) = (Some bc, Some b, cv, un)"
      by (cases ?e) (simp add: best_step_def subset_cost_def)
    with Cons.prems have f: "fold (best_step ic ids) cs (Some bc, Some b, cv, un) = st'" by simp
    from Cons.IH[OF f] show ?thesis
    proof
      assume "st' = (Some bc, Some b, cv, un) \<and> (\<forall>c' \<in> set cs. bc \<le> subset_cost ic ids c')"
      with False show ?thesis by auto
    next
      assume "\<exists>pre c post. cs = pre @ c # post \<and>
        st' = (Some (subset_cost ic ids c), Some c, fst (snd (eval_subset ic ids c)), snd (snd (eval_subset ic ids c))) \<and>
        subset_cost ic ids c < bc \<and>
        (\<forall>c' \<in> set pre. subset_cost ic ids c < subset_cost ic ids c') \<and>
        (\<forall>c' \<in> set post. subset_cost ic ids c \<le> subset_cost ic ids c')"
      then obtain pre c post where p: "cs = pre @ c # post"
        "st' = (Some (subset_cost ic ids c), Some c, fst (snd (eval_subset ic ids c)), snd (snd (eval_subset ic ids c)))"
        "subset_cost ic ids c < bc"
        "\<forall>c' \<in> set pre. subset_cost ic ids c < subset_cost ic ids c'"
        "\<forall>c' \<in> set post. subset_cost ic ids c \<le> subset_cost ic ids c'" by blast
      from p(1) have "c0 # cs = (c0 # pre) @ c # post" by simp
      moreover from p(3,4) False have "\<forall>c' \<in> set (c0 # pre). subset_cost ic ids c < subset_cost ic ids c'"
        by auto
      ultimately show ?thesis using p(2,3,5) by blast
    qed
  qed
qed

lemma best_of_size_first_min:
  assumes "combinations bs kk \<noteq> []"
  shows "\<exists>pre c post. combinations bs kk = pre @ c # post \<and>
      best_of_size ic ids bs kk =
        (Some (subset_cost ic ids c), Some c, fst (snd (eval_subset ic ids c)), snd (snd (eval_subset ic ids c))) \<and>
      (\<forall>c' \<in> set pre. subset_cost ic ids c < subset_cost ic ids c') \<and>
      (\<forall>c' \<in> set post. subset_cost ic ids c \<le> subset_cost ic ids c')"
proof -
  from assms obtain c0 cs where cs: "combinations bs kk = c0 # cs" by (cases "combinations bs kk") auto
  let ?e = "eval_subset ic ids c0"
  have step: "best_step ic ids c0 (None, None, 0, []) =
      (Some (subset_cost ic ids c0), Some c0, fst (snd ?e), snd (snd ?e))"
    by (cases ?e) (simp add: best_step_def subset_cost_def)
  have b: "best_of_size ic ids bs kk = fold (best_step ic ids) cs
      (Some (subset_cost ic ids c0), Some c0, fst (snd ?e), snd (snd ?e))"
    by (simp add: best_of_size_def cs step)
  from best_fold_Some[OF b[symmetric]] show ?thesis
  proof
    assume a: "best_of_size ic ids bs kk = (Some (subset_cost ic ids c0), Some c0, fst (snd ?e), snd (snd ?e)) \<and>
               (\<forall>c' \<in> set cs. subset_cost ic ids c0 \<le> subset_cost ic ids c')"
    then show ?thesis
      by (intro exI[of _ "[]"] exI[of _ c0] exI[of _ cs]) (simp add: cs)
  next
    assume "\<exists>pre c post. cs = pre @ c # post \<and>
      best_of_size ic ids bs kk =
        (Some (subset_cost ic ids c), Some c, fst (snd (eval_subset ic ids c)), snd (snd (eval_subset ic ids c))) \<and>
      subset_cost ic ids c < subset_cost ic ids c0 \<and>
      (\<forall>c' \<in> set pre. subset_cost ic ids c < subset_cost ic ids c') \<and>
      (\<forall>c' \<in> set post. subset_cost ic ids c \<le> subset_cost ic ids c')"
    then obtain pre c post where p: "cs = pre @ c # post"
      "best_of_size ic ids bs kk =
        (Some (subset_cost ic ids c), Some c, fst (snd (eval_subset ic ids c)), snd (snd (eval_subset ic ids c)))"
      "subset_cost ic ids c < subset_cost ic ids c0"
      "\<forall>c' \<in> set pre. subset_cost ic ids c < subset_cost ic ids c'"
      "\<forall>c' \<in> set post. subset_cost ic ids c \<le> subset_cost ic ids c'" by blast
    from p(1) have "combinations bs kk = (c0 # pre) @ c # post" by (simp add: cs)
    moreover from p(3,4) have "\<forall>c' \<in> set (c0 # pre). subset_cost ic ids c < subset_cost ic ids c'" by simp
    ultimately show ?thesis using p(2,5) by blast
  qed
qed


lemma combinations_subset: "c \<in> set (combinations xs kk) \<Longrightarrow> length c = kk \<and> set c \<subseteq> set xs"
  by (induction xs kk arbitrary: c rule: combinations.induct) fastforce+

lemma combinations_too_long: "length xs < kk \<Longrightarrow> combinations xs kk = []"
  by (induction xs kk rule: combinations.induct) auto

lemma combinations_all: "combinations xs (length xs) = [xs]"
  by (induction xs) (auto simp: combinations_too_long)

lemma combinations_nonempty: "kk \<le> length xs \<Longrightarrow> combinations xs kk \<noteq> []"
  by (induction xs kk rule: combinations.induct) auto

lemma combinations_lex_sorted:
  "sorted_wrt (<) xs \<Longrightarrow> sorted_wrt (<) (combinations (xs :: 'a::linorder list) kk)"
proof (induction xs kk rule: combinations.induct)
  case (1 xs)
  then show ?case by simp
next
  case (2 k)
  then show ?case by simp
next
  case (3 x xs k)
  from "3.prems" have sx: "sorted_wrt (<) xs" and lt: "\<forall>y \<in> set xs. x < y" by auto
  have a: "sorted_wrt (<) (map ((#) x) (combinations xs k))"
    using "3.IH"(1)[OF sx] by (simp add: sorted_wrt_map)
  have b: "sorted_wrt (<) (combinations xs (Suc k))" using "3.IH"(2)[OF sx] .
  have c: "x # p < q" if "q \<in> set (combinations xs (Suc k))" for p q
  proof -
    from combinations_subset[OF that] have "length q = Suc k" "set q \<subseteq> set xs" by auto
    then obtain y q' where "q = y # q'" "y \<in> set xs" by (cases q) auto
    with lt show ?thesis by simp
  qed
  from a b c show ?case by (auto simp: sorted_wrt_append)
qed

lemma size_fold_proj:
  "map (\<lambda>r. (size_k r, best_subset r, total_cost r, items_covered r, uncovered_count r))
     (fst (fold (size_step ic ids bs) ks (res, bl))) =
   map (\<lambda>r. (size_k r, best_subset r, total_cost r, items_covered r, uncovered_count r)) res @
   map (\<lambda>kk. case best_of_size ic ids bs kk of (bc, b, cv, un) \<Rightarrow>
              (kk, b, map_option (\<lambda>c. py_round c 2) bc, cv, length un)) ks"
proof (induction ks arbitrary: res bl)
  case Nil
  then show ?case by simp
next
  case (Cons kk ks)
  obtain res1 bl1 where st: "size_step ic ids bs kk (res, bl) = (res1, bl1)"
    by (cases "size_step ic ids bs kk (res, bl)")
  obtain bc b cv un where bo: "best_of_size ic ids bs kk = (bc, b, cv, un)"
    by (metis prod_cases4)
  from st bo have "map (\<lambda>r. (size_k r, best_subset r, total_cost r, items_covered r, uncovered_count r)) res1 =
      map (\<lambda>r. (size_k r, best_subset r, total_cost r, items_covered r, uncovered_count r)) res @
      [(kk, b, map_option (\<lambda>c. py_round c 2) bc, cv, length un)]"
    by (auto simp: size_step_def Let_def)
  with Cons.IH[of res1 bl1] st bo show ?case by simp
qed

lemma subset_results_nth:
  assumes "1 \<le> kk" and "kk \<le> length bs"
  shows "length (subset_results ic ids bs) = length bs \<and>
         (case best_of_size ic ids bs kk of (bc, b, cv, un) \<Rightarrow>
            size_k (subset_results ic ids bs ! (kk - 1)) = kk \<and>
            best_subset (subset_results ic ids bs ! (kk - 1)) = b \<and>
            total_cost (subset_results ic ids bs ! (kk - 1)) = map_option (\<lambda>c. py_round c 2) bc \<and>
            items_covered (subset_results ic ids bs ! (kk - 1)) = cv \<and>
            uncovered_count (subset_results ic ids bs ! (kk - 1)) = length un)"
proof -
  let ?p = "\<lambda>r. (size_k r, best_subset r, total_cost r, items_covered r, uncovered_count r)"
  let ?g = "\<lambda>kk. case best_of_size ic ids bs kk of (bc, b, cv, un) \<Rightarrow>
              (kk, b, map_option (\<lambda>c. py_round c 2) bc, cv, length un)"
  have m: "map ?p (subset_results ic ids bs) = map ?g [1..<Suc (length bs)]"
    using size_fold_proj[of ic ids bs "[1..<Suc (length bs)]" "[]" None]
    by (simp add: subset_results_def del: upt_Suc)
  have "length (subset_results ic ids bs) = length (map ?p (subset_results ic ids bs))" by simp
  also have "\<dots> = length [1..<Suc (length bs)]" unfolding m by simp
  finally have len: "length (subset_results ic ids bs) = length bs" by (simp del: upt_Suc)
  from assms len have i: "kk - 1 < length (subset_results ic ids bs)" by simp
  from assms have u: "[1..<Suc (length bs)] ! (kk - 1) = kk" and ul: "kk - 1 < length [1..<Suc (length bs)]"
    by (simp_all del: upt_Suc)
  have "?p (subset_results ic ids bs ! (kk - 1)) = map ?p (subset_results ic ids bs) ! (kk - 1)"
    using i by simp
  also have "\<dots> = map ?g [1..<Suc (length bs)] ! (kk - 1)" unfolding m ..
  also have "\<dots> = ?g kk" using u ul by (simp only: nth_map)
  finally have "?p (subset_results ic ids bs ! (kk - 1)) = ?g kk" .
  with len show ?thesis by (auto split: prod.splits)
qed


lemma subset_results_cong:
  assumes "\<forall>iid bd. cost_of ic iid bd = cost_of ic' iid bd"
  shows "subset_results ic ids bs = subset_results ic' ids bs"
proof -
  from assms have "cost_of ic = cost_of ic'" by (intro ext) simp
  then have "costs_here ic = costs_here ic'" by (intro ext) (simp add: costs_here_def)
  then have "eval_step ic = eval_step ic'" by (intro ext) (simp add: eval_step_def)
  then have "eval_subset ic = eval_subset ic'" by (intro ext) (simp add: eval_subset_def)
  then have "best_step ic = best_step ic'" by (intro ext) (simp add: best_step_def)
  then have "best_of_size ic = best_of_size ic'" by (intro ext) (simp add: best_of_size_def)
  then have "size_step ic = size_step ic'" by (intro ext) (simp add: size_step_def)
  then show ?thesis by (simp add: subset_results_def)
qed

lemma all_bidders_of_set:
  "set (map q_bidder bids1) = set (map q_bidder bids2) \<Longrightarrow> all_bidders_of bids1 = all_bidders_of bids2"
proof -
  assume a: "set (map q_bidder bids1) = set (map q_bidder bids2)"
  have "all_bidders_of b = sorted_list_of_set (set (map q_bidder b))" for b
    by (simp only: all_bidders_of_def sorted_list_of_set_sort_remdups)
  with a show ?thesis by simp
qed

lemma all_bidders_of_strict: "sorted_wrt (<) (all_bidders_of bid_rows)"
  by (simp add: all_bidders_of_def strict_sorted_iff)

text \<open>
  C8. The result of the optimizer is a function of the cost table and of the set of bidder
  names: two inputs that agree on both, whatever the order of their bid rows, give the
  same results. The bidder list is strictly increasing, and so is, in the lexicographic
  order, the list of combinations of each size. For every size from 1 to the number of
  bidders, the best subset recorded is the first combination of that size with the least
  total: every combination before it costs strictly more, every one after it at least as
  much, and the total recorded is its total, rounded to two decimals.
\<close>

theorem first_cheapest_combination_wins:
  "(set (map q_bidder bids1) = set (map q_bidder bids2) \<and>
    (\<forall>iid bd. cost_of (build_item_costs bids1) iid bd = cost_of (build_item_costs bids2) iid bd) \<longrightarrow>
      subset_enum item_ids bids1 = subset_enum item_ids bids2) \<and>
   sorted_wrt (<) (all_bidders_of bid_rows) \<and>
   sorted_wrt (<) (combinations (all_bidders_of bid_rows) kk) \<and>
   (item_ids \<noteq> [] \<and> 1 \<le> kk \<and> kk \<le> length (all_bidders_of bid_rows) \<longrightarrow>
      (\<exists>res pre c post.
          subset_enum item_ids bid_rows = Some res \<and> length res = length (all_bidders_of bid_rows) \<and>
          combinations (all_bidders_of bid_rows) kk = pre @ c # post \<and>
          size_k (res ! (kk - 1)) = kk \<and>
          best_subset (res ! (kk - 1)) = Some c \<and>
          total_cost (res ! (kk - 1)) =
            Some (py_round (subset_cost (build_item_costs bid_rows) item_ids c) 2) \<and>
          (\<forall>c' \<in> set pre. subset_cost (build_item_costs bid_rows) item_ids c
                             < subset_cost (build_item_costs bid_rows) item_ids c') \<and>
          (\<forall>c' \<in> set post. subset_cost (build_item_costs bid_rows) item_ids c
                              \<le> subset_cost (build_item_costs bid_rows) item_ids c')))"
proof -
  let ?bs = "all_bidders_of bid_rows"
  let ?ic = "build_item_costs bid_rows"
  have p1: "set (map q_bidder bids1) = set (map q_bidder bids2) \<and>
    (\<forall>iid bd. cost_of (build_item_costs bids1) iid bd = cost_of (build_item_costs bids2) iid bd) \<longrightarrow>
      subset_enum item_ids bids1 = subset_enum item_ids bids2"
  proof
    assume a: "set (map q_bidder bids1) = set (map q_bidder bids2) \<and>
      (\<forall>iid bd. cost_of (build_item_costs bids1) iid bd = cost_of (build_item_costs bids2) iid bd)"
    then have "all_bidders_of bids1 = all_bidders_of bids2" by (intro all_bidders_of_set) simp
    moreover from a have "subset_results (build_item_costs bids1) item_ids (all_bidders_of bids2) =
        subset_results (build_item_costs bids2) item_ids (all_bidders_of bids2)"
      by (intro subset_results_cong) simp
    ultimately show "subset_enum item_ids bids1 = subset_enum item_ids bids2"
      by (simp add: subset_enum_def)
  qed
  have p2: "sorted_wrt (<) ?bs" by (rule all_bidders_of_strict)
  have p3: "sorted_wrt (<) (combinations ?bs kk)" by (rule combinations_lex_sorted[OF p2])
  have p4: "\<exists>res pre c post.
          subset_enum item_ids bid_rows = Some res \<and> length res = length ?bs \<and>
          combinations ?bs kk = pre @ c # post \<and>
          size_k (res ! (kk - 1)) = kk \<and>
          best_subset (res ! (kk - 1)) = Some c \<and>
          total_cost (res ! (kk - 1)) = Some (py_round (subset_cost ?ic item_ids c) 2) \<and>
          (\<forall>c' \<in> set pre. subset_cost ?ic item_ids c < subset_cost ?ic item_ids c') \<and>
          (\<forall>c' \<in> set post. subset_cost ?ic item_ids c \<le> subset_cost ?ic item_ids c')"
    if h: "item_ids \<noteq> [] \<and> 1 \<le> kk \<and> kk \<le> length ?bs"
  proof -
    from h have ne: "combinations ?bs kk \<noteq> []" by (simp add: combinations_nonempty)
    from best_of_size_first_min[OF ne, of ?ic item_ids] obtain pre c post where
      b: "combinations ?bs kk = pre @ c # post"
         "best_of_size ?ic item_ids ?bs kk =
            (Some (subset_cost ?ic item_ids c), Some c, fst (snd (eval_subset ?ic item_ids c)),
             snd (snd (eval_subset ?ic item_ids c)))"
         "\<forall>c' \<in> set pre. subset_cost ?ic item_ids c < subset_cost ?ic item_ids c'"
         "\<forall>c' \<in> set post. subset_cost ?ic item_ids c \<le> subset_cost ?ic item_ids c'"
      by blast
    from h have k: "1 \<le> kk" "kk \<le> length ?bs" by simp_all
    from subset_results_nth[OF k, of ?ic item_ids] b(2)
    have r: "length (subset_results ?ic item_ids ?bs) = length ?bs"
      "size_k (subset_results ?ic item_ids ?bs ! (kk - 1)) = kk"
      "best_subset (subset_results ?ic item_ids ?bs ! (kk - 1)) = Some c"
      "total_cost (subset_results ?ic item_ids ?bs ! (kk - 1)) = Some (py_round (subset_cost ?ic item_ids c) 2)"
      by simp_all
    from h have "subset_enum item_ids bid_rows = Some (subset_results ?ic item_ids ?bs)"
      by (simp add: subset_enum_def)
    with r b(1,3,4) show ?thesis by blast
  qed
  from p1 p2 p3 p4 show ?thesis by blast
qed


lemma round_half_even_mono: "x \<le> y \<Longrightarrow> round_half_even x \<le> round_half_even y"
proof -
  assume xy: "x \<le> y"
  then have fl: "\<lfloor>x\<rfloor> \<le> \<lfloor>y\<rfloor>" by (rule floor_mono)
  have rx: "round_half_even x \<le> \<lfloor>x\<rfloor> + 1" and ry: "\<lfloor>y\<rfloor> \<le> round_half_even y"
    by (auto simp: round_half_even_def Let_def)
  show ?thesis
  proof (cases "\<lfloor>x\<rfloor> < \<lfloor>y\<rfloor>")
    case True
    with rx ry show ?thesis by linarith
  next
    case False
    with fl have e: "\<lfloor>x\<rfloor> = \<lfloor>y\<rfloor>" by simp
    with xy have "x - of_int \<lfloor>x\<rfloor> \<le> y - of_int \<lfloor>y\<rfloor>" by simp
    with e show ?thesis by (auto simp: round_half_even_def Let_def)
  qed
qed

lemma py_round_mono: "x \<le> y \<Longrightarrow> py_round x nd \<le> py_round y nd"
proof -
  assume "x \<le> y"
  then have "x * 10 ^ nd \<le> y * 10 ^ nd" by (simp add: mult_right_mono)
  then have "round_half_even (x * 10 ^ nd) \<le> round_half_even (y * 10 ^ nd)"
    by (rule round_half_even_mono)
  then have "(of_int (round_half_even (x * 10 ^ nd)) :: rat) \<le> of_int (round_half_even (y * 10 ^ nd))"
    by simp
  then show ?thesis by (simp add: py_round_def divide_right_mono)
qed

lemma costs_here_subset:
  "set c \<subseteq> set bs \<Longrightarrow> set (costs_here ic c iid) \<subseteq> set (costs_here ic bs iid)"
  by (auto simp: costs_here_def map_filter_def)

lemma costs_here_nonempty_mono:
  "set c \<subseteq> set bs \<Longrightarrow> costs_here ic c iid \<noteq> [] \<Longrightarrow> costs_here ic bs iid \<noteq> []"
  by (metis costs_here_subset set_empty subset_empty)

lemma min_list_antimono:
  assumes "xs \<noteq> []" and "set xs \<subseteq> set ys"
  shows "min_list ys \<le> min_list (xs :: rat list)"
proof -
  from assms have ys: "ys \<noteq> []" by auto
  from assms have "Min (set ys) \<le> Min (set xs)" by (intro Min_antimono) auto
  with assms(1) ys show ?thesis by (simp add: min_list_Min)
qed

lemma filter_length_le:
  "\<forall>x \<in> set xs. P x \<longrightarrow> Q x \<Longrightarrow> length (filter P xs) \<le> length (filter Q xs)"
  by (induction xs) auto

lemma filter_length_eq_conv:
  "\<forall>x \<in> set xs. P x \<longrightarrow> Q x \<Longrightarrow> length (filter P xs) = length (filter Q xs) \<Longrightarrow>
   \<forall>x \<in> set xs. Q x \<longrightarrow> P x"
proof (induction xs)
  case Nil
  then show ?case by simp
next
  case (Cons x xs)
  from Cons.prems(1) have sub: "\<forall>y \<in> set xs. P y \<longrightarrow> Q y" by simp
  note le = filter_length_le[OF sub]
  show ?case
  proof (cases "Q x \<and> \<not> P x")
    case True
    with Cons.prems(2) le show ?thesis by simp
  next
    case False
    with Cons.prems have "length (filter P xs) = length (filter Q xs)" by auto
    from Cons.IH[OF sub this] False show ?thesis by auto
  qed
qed

lemma covered_count:
  "fst (snd (eval_subset ic ids bs)) = length (filter (\<lambda>iid. costs_here ic bs iid \<noteq> []) ids)"
  by (simp add: eval_subset_eq)

lemma superset_cost_le:
  assumes "set c \<subseteq> set bs"
      and "fst (snd (eval_subset ic ids c)) = fst (snd (eval_subset ic ids bs))"
  shows "subset_cost ic ids bs \<le> subset_cost ic ids c"
proof -
  let ?P = "\<lambda>iid. costs_here ic c iid \<noteq> []"
  let ?Q = "\<lambda>iid. costs_here ic bs iid \<noteq> []"
  have pq: "\<forall>x \<in> set ids. ?P x \<longrightarrow> ?Q x" using costs_here_nonempty_mono[OF assms(1)] by blast
  from assms(2) have "length (filter ?P ids) = length (filter ?Q ids)" by (simp only: covered_count)
  from filter_length_eq_conv[OF pq this] have qp: "\<forall>x \<in> set ids. ?Q x \<longrightarrow> ?P x" .
  have "item_min ic bs iid \<le> item_min ic c iid" if "iid \<in> set ids" for iid
  proof (cases "?P iid")
    case True
    with pq that have "?Q iid" by blast
    with True min_list_antimono[OF True costs_here_subset[OF assms(1)]] show ?thesis
      by (simp add: item_min_def)
  next
    case False
    with qp that have "\<not> ?Q iid" by blast
    with False show ?thesis by (simp add: item_min_def)
  qed
  then have "sum_list (map (item_min ic bs) ids) \<le> sum_list (map (item_min ic c) ids)"
    by (intro sum_list_mono) simp
  then show ?thesis by (simp add: subset_cost_def eval_subset_eq)
qed

lemma superset_covers_more:
  assumes "set c \<subseteq> set bs"
  shows "fst (snd (eval_subset ic ids c)) \<le> fst (snd (eval_subset ic ids bs))"
proof -
  have "\<forall>x \<in> set ids. costs_here ic c x \<noteq> [] \<longrightarrow> costs_here ic bs x \<noteq> []"
    using costs_here_nonempty_mono[OF assms] by blast
  from filter_length_le[OF this] show ?thesis by (simp only: covered_count)
qed

text \<open>
  C2, as the code has it. The total of a subset leaves out the items none of its members
  quoted, so a smaller subset that covers fewer items can have a smaller total, and the
  best total need not fall as the size grows. What holds: the set of all bidders covers at
  least as many items as the best subset of any size, and whenever the best subset of a
  size covers as many items as all bidders together, the best total for all bidders is at
  most the best total of that size.
\<close>

theorem all_bidders_cheapest_at_equal_coverage:
  "item_ids \<noteq> [] \<and> 1 \<le> kk \<and> kk \<le> length (all_bidders_of bid_rows) \<longrightarrow>
     (\<exists>res a b.
         subset_enum item_ids bid_rows = Some res \<and>
         total_cost (res ! (length (all_bidders_of bid_rows) - 1)) = Some a \<and>
         total_cost (res ! (kk - 1)) = Some b \<and>
         items_covered (res ! (kk - 1)) \<le> items_covered (res ! (length (all_bidders_of bid_rows) - 1)) \<and>
         (items_covered (res ! (kk - 1)) = items_covered (res ! (length (all_bidders_of bid_rows) - 1))
            \<longrightarrow> a \<le> b))"
proof
  let ?bs = "all_bidders_of bid_rows"
  let ?ic = "build_item_costs bid_rows"
  let ?n = "length ?bs"
  let ?res = "subset_results ?ic item_ids ?bs"
  assume h: "item_ids \<noteq> [] \<and> 1 \<le> kk \<and> kk \<le> ?n"
  then have k: "1 \<le> kk" "kk \<le> ?n" and n: "1 \<le> ?n" "?n \<le> ?n" by simp_all
  from h have se: "subset_enum item_ids bid_rows = Some ?res" by (simp add: subset_enum_def)
  from k have ne: "combinations ?bs kk \<noteq> []" by (simp add: combinations_nonempty)
  from best_of_size_first_min[OF ne, of ?ic item_ids] obtain pre c post where
    b: "combinations ?bs kk = pre @ c # post"
       "best_of_size ?ic item_ids ?bs kk =
          (Some (subset_cost ?ic item_ids c), Some c, fst (snd (eval_subset ?ic item_ids c)),
           snd (snd (eval_subset ?ic item_ids c)))"
    by blast
  from b(1) have "c \<in> set (combinations ?bs kk)" by simp
  then have sub: "set c \<subseteq> set ?bs" using combinations_subset by blast
  have bn: "best_of_size ?ic item_ids ?bs ?n =
      (Some (subset_cost ?ic item_ids ?bs), Some ?bs, fst (snd (eval_subset ?ic item_ids ?bs)),
       snd (snd (eval_subset ?ic item_ids ?bs)))"
    by (cases "eval_subset ?ic item_ids ?bs")
       (simp add: best_of_size_def combinations_all best_step_def subset_cost_def)
  from subset_results_nth[OF k, of ?ic item_ids] b(2)
  have rk: "total_cost (?res ! (kk - 1)) = Some (py_round (subset_cost ?ic item_ids c) 2)"
           "items_covered (?res ! (kk - 1)) = fst (snd (eval_subset ?ic item_ids c))"
    by (auto split: prod.splits)
  from subset_results_nth[OF n, of ?ic item_ids] bn
  have rn: "total_cost (?res ! (?n - 1)) = Some (py_round (subset_cost ?ic item_ids ?bs) 2)"
           "items_covered (?res ! (?n - 1)) = fst (snd (eval_subset ?ic item_ids ?bs))"
    by (auto split: prod.splits)
  have le: "items_covered (?res ! (kk - 1)) \<le> items_covered (?res ! (?n - 1))"
    unfolding rk rn by (rule superset_covers_more[OF sub])
  have "py_round (subset_cost ?ic item_ids ?bs) 2 \<le> py_round (subset_cost ?ic item_ids c) 2"
    if "items_covered (?res ! (kk - 1)) = items_covered (?res ! (?n - 1))"
    using that unfolding rk rn by (intro py_round_mono superset_cost_le[OF sub])
  with se rk(1) rn(1) le
  show "\<exists>res a b.
         subset_enum item_ids bid_rows = Some res \<and>
         total_cost (res ! (?n - 1)) = Some a \<and>
         total_cost (res ! (kk - 1)) = Some b \<and>
         items_covered (res ! (kk - 1)) \<le> items_covered (res ! (?n - 1)) \<and>
         (items_covered (res ! (kk - 1)) = items_covered (res ! (?n - 1)) \<longrightarrow> a \<le> b)"
    by blast
qed


theorem optimum_not_monotone_in_size:
  "map total_cost (the (subset_enum [1, 2]
      [\<lparr>q_item_id = 1, q_bidder = ''A'', q_unit_price = None, q_ext_price = Some 10, q_quantity = None\<rparr>,
       \<lparr>q_item_id = 2, q_bidder = ''B'', q_unit_price = None, q_ext_price = Some 5, q_quantity = None\<rparr>]))
   = [Some 5, Some 15]"
  by code_simp

theorem all_bidders_cheapest_at_equal_coverage_witness:
  "\<exists>res a b.
     subset_enum [1, 2]
       [\<lparr>q_item_id = 1, q_bidder = ''A'', q_unit_price = None, q_ext_price = Some 10, q_quantity = None\<rparr>,
        \<lparr>q_item_id = 1, q_bidder = ''B'', q_unit_price = None, q_ext_price = Some 8, q_quantity = None\<rparr>,
        \<lparr>q_item_id = 2, q_bidder = ''A'', q_unit_price = Some 5, q_ext_price = None, q_quantity = None\<rparr>,
        \<lparr>q_item_id = 2, q_bidder = ''B'', q_unit_price = Some 3, q_ext_price = None, q_quantity = Some 2\<rparr>]
       = Some res \<and>
     total_cost (res ! 1) = Some a \<and> total_cost (res ! 0) = Some b \<and> a \<le> b"
proof -
  let ?B = "[\<lparr>q_item_id = 1, q_bidder = ''A'', q_unit_price = None, q_ext_price = Some 10, q_quantity = None\<rparr>,
        \<lparr>q_item_id = 1, q_bidder = ''B'', q_unit_price = None, q_ext_price = Some 8, q_quantity = None\<rparr>,
        \<lparr>q_item_id = 2, q_bidder = ''A'', q_unit_price = Some 5, q_ext_price = None, q_quantity = None\<rparr>,
        \<lparr>q_item_id = 2, q_bidder = ''B'', q_unit_price = Some 3, q_ext_price = None, q_quantity = Some 2\<rparr>]"
  have n: "length (all_bidders_of ?B) = 2" by code_simp
  have c: "items_covered (the (subset_enum [1, 2] ?B) ! 0) = items_covered (the (subset_enum [1, 2] ?B) ! 1)"
    by code_simp
  from all_bidders_cheapest_at_equal_coverage [of "[1, 2]" 1 ?B] n
  obtain res a b where r: "subset_enum [1, 2] ?B = Some res"
      "total_cost (res ! 1) = Some a" "total_cost (res ! 0) = Some b"
      "items_covered (res ! 0) = items_covered (res ! 1) \<longrightarrow> a \<le> b"
    by auto
  from r(1) c have "items_covered (res ! 0) = items_covered (res ! 1)" by simp
  with r show ?thesis by blast
qed

theorem first_cheapest_combination_wins_witness:
  "best_subset (the (subset_enum [1]
      [\<lparr>q_item_id = 1, q_bidder = ''B'', q_unit_price = None, q_ext_price = Some 10, q_quantity = None\<rparr>,
       \<lparr>q_item_id = 1, q_bidder = ''A'', q_unit_price = Some 10, q_ext_price = None, q_quantity = None\<rparr>]) ! 0)
   = Some [''A'']"
proof -
  let ?B = "[\<lparr>q_item_id = 1, q_bidder = ''B'', q_unit_price = None, q_ext_price = Some 10, q_quantity = None\<rparr>,
       \<lparr>q_item_id = 1, q_bidder = ''A'', q_unit_price = Some 10, q_ext_price = None, q_quantity = None\<rparr>]"
  have n: "length (all_bidders_of ?B) = 2" by code_simp
  have cs: "combinations (all_bidders_of ?B) 1 = [[''A''], [''B'']]" by code_simp
  have eq: "subset_cost (build_item_costs ?B) [1] [''B''] = subset_cost (build_item_costs ?B) [1] [''A'']"
    by code_simp
  have h: "[1::nat] \<noteq> [] \<and> (1::nat) \<le> 1 \<and> 1 \<le> length (all_bidders_of ?B)"
    by code_simp
  note t = first_cheapest_combination_wins
             [where item_ids = "[1]" and kk = 1 and bid_rows = ?B,
              THEN conjunct2, THEN conjunct2, THEN conjunct2, rule_format, OF h]
  then obtain res pre c post where r: "subset_enum [1] ?B = Some res"
      "combinations (all_bidders_of ?B) 1 = pre @ c # post"
      "best_subset (res ! 0) = Some c"
      "\<forall>c' \<in> set pre. subset_cost (build_item_costs ?B) [1] c < subset_cost (build_item_costs ?B) [1] c'"
    by auto
  from r(2) cs have e: "pre @ c # post = [[''A''], [''B'']]" by simp
  then have "(pre = [] \<and> c = [''A'']) \<or> (pre = [[''A'']] \<and> c = [''B''])"
    by (cases pre) (auto simp: append_eq_Cons_conv)
  moreover have "\<not> (pre = [[''A'']] \<and> c = [''B''])" using r(4) eq by auto
  ultimately have "c = [''A'']" by blast
  with r(1,3) show ?thesis by simp
qed

subsection \<open>The synonym loops and the order of iteration\<close>

text \<open>
  The source iterates the two synonym tables as sets, in no fixed order. Two synonyms that
  both match a header cut the same number of characters from it, so every order of
  iteration gives the result of the order used in the model.
\<close>

lemma endswith_of_longer:
  assumes "endswith s u" and "endswith s t" and "length t \<le> length u"
  shows "endswith u t"
proof -
  from assms(1) have u: "u = drop (length s - length u) s" and lu: "length u \<le> length s"
    by (simp_all add: endswith_def)
  from assms(2) have t: "drop (length s - length t) s = t" by (simp add: endswith_def)
  have "drop (length u - length t) u = drop (length u - length t) (drop (length s - length u) s)"
    using u by simp
  also have "\<dots> = drop (length s - length t) s"
    using lu assms(3) by (simp add: drop_drop)
  finally show ?thesis using assms(3) t by (simp add: endswith_def)
qed

lemma endswith_either:
  assumes "endswith s u" and "endswith s t"
  shows "endswith u t \<or> endswith t u"
  using endswith_of_longer[OF assms] endswith_of_longer[OF assms(2,1)] by (cases "length t \<le> length u") auto

lemma unit_forms_exclusive:
  "list_all (\<lambda>a. list_all (\<lambda>b.
      list_all (\<lambda>x. list_all (\<lambda>y.
          (\<not> endswith (CHR ''_'' # x) (CHR ''_'' # y) \<and> \<not> endswith (CHR ''_'' # y) (CHR ''_'' # x))
          \<or> length (unit_under a) = length (unit_under b))
        [unit_under b, b]) [unit_under a, a])
     UNIT_PRICE_SYNONYMS) UNIT_PRICE_SYNONYMS"
  by code_simp

lemma unit_hits_same_cut:
  assumes "a \<in> set UNIT_PRICE_SYNONYMS" "b \<in> set UNIT_PRICE_SYNONYMS" "unit_hit s_low a" "unit_hit s_low b"
  shows "length (unit_under a) = length (unit_under b)"
proof -
  from assms(3) obtain x where x: "x \<in> set [unit_under a, a]" "endswith s_low (CHR ''_'' # x)"
    by (auto simp: unit_hit_def)
  from assms(4) obtain y where y: "y \<in> set [unit_under b, b]" "endswith s_low (CHR ''_'' # y)"
    by (auto simp: unit_hit_def)
  from endswith_either[OF x(2) y(2)]
  have e: "endswith (CHR ''_'' # x) (CHR ''_'' # y) \<or> endswith (CHR ''_'' # y) (CHR ''_'' # x)" .
  from unit_forms_exclusive assms(1,2) x(1) y(1)
  have "(\<not> endswith (CHR ''_'' # x) (CHR ''_'' # y) \<and> \<not> endswith (CHR ''_'' # y) (CHR ''_'' # x))
          \<or> length (unit_under a) = length (unit_under b)"
    unfolding list_all_iff by blast
  with e show ?thesis by blast
qed

lemma unit_syn_loop_find:
  "unit_syn_loop s s_low syns =
     (case find (unit_hit s_low) syns of
        None \<Rightarrow> ([], [])
      | Some syn \<Rightarrow> (upper (rstrip_us (take (length s - (length (unit_under syn) + 1)) s)), ''unit_price''))"
  by (induction syns) (auto simp: unit_hit_def unit_under_def Let_def)

lemma unit_syn_loop_any_order:
  assumes "set syns = set UNIT_PRICE_SYNONYMS"
  shows "unit_syn_loop s s_low syns = unit_syn_loop s s_low UNIT_PRICE_SYNONYMS"
proof (cases "find (unit_hit s_low) syns")
  case None
  then have "\<forall>x \<in> set syns. \<not> unit_hit s_low x" by (simp add: find_None_iff)
  with assms have "find (unit_hit s_low) UNIT_PRICE_SYNONYMS = None" by (simp add: find_None_iff)
  with None show ?thesis by (simp add: unit_syn_loop_find)
next
  case (Some a)
  then have a: "a \<in> set syns" "unit_hit s_low a" by (auto simp: find_Some_iff in_set_conv_nth)
  with assms have "\<exists>x \<in> set UNIT_PRICE_SYNONYMS. unit_hit s_low x" by auto
  then obtain b where fb: "find (unit_hit s_low) UNIT_PRICE_SYNONYMS = Some b"
    by (cases "find (unit_hit s_low) UNIT_PRICE_SYNONYMS") (auto simp: find_None_iff)
  then have b: "b \<in> set UNIT_PRICE_SYNONYMS" "unit_hit s_low b" by (auto simp: find_Some_iff in_set_conv_nth)
  from a(1) assms have "a \<in> set UNIT_PRICE_SYNONYMS" by simp
  from unit_hits_same_cut[OF this b(1) a(2) b(2)] Some fb show ?thesis
    by (simp add: unit_syn_loop_find)
qed

lemma ext_forms_exclusive:
  "list_all (\<lambda>a. list_all (\<lambda>b.
      (\<not> endswith (CHR ''_'' # replace (CHR ''.'') [] (ext_under a)) (CHR ''_'' # replace (CHR ''.'') [] (ext_under b)) \<and>
       \<not> endswith (CHR ''_'' # replace (CHR ''.'') [] (ext_under b)) (CHR ''_'' # replace (CHR ''.'') [] (ext_under a)))
      \<or> length (ext_under a) = length (ext_under b))
     EXT_PRICE_SYNONYMS) EXT_PRICE_SYNONYMS"
  by code_simp

lemma ext_hits_same_cut:
  assumes "a \<in> set EXT_PRICE_SYNONYMS" "b \<in> set EXT_PRICE_SYNONYMS" "ext_hit s_low a" "ext_hit s_low b"
  shows "length (ext_under a) = length (ext_under b)"
proof -
  from endswith_either[OF assms(3)[unfolded ext_hit_def] assms(4)[unfolded ext_hit_def]]
  have e: "endswith (CHR ''_'' # replace (CHR ''.'') [] (ext_under a)) (CHR ''_'' # replace (CHR ''.'') [] (ext_under b)) \<or>
           endswith (CHR ''_'' # replace (CHR ''.'') [] (ext_under b)) (CHR ''_'' # replace (CHR ''.'') [] (ext_under a))" .
  from ext_forms_exclusive assms(1,2)
  have "(\<not> endswith (CHR ''_'' # replace (CHR ''.'') [] (ext_under a)) (CHR ''_'' # replace (CHR ''.'') [] (ext_under b)) \<and>
       \<not> endswith (CHR ''_'' # replace (CHR ''.'') [] (ext_under b)) (CHR ''_'' # replace (CHR ''.'') [] (ext_under a)))
      \<or> length (ext_under a) = length (ext_under b)"
    unfolding list_all_iff by blast
  with e show ?thesis by blast
qed

lemma ext_syn_loop_find:
  "ext_syn_loop s s_low syns =
     (case find (ext_hit s_low) syns of
        None \<Rightarrow> ([], [])
      | Some syn \<Rightarrow> (upper (rstrip_us (take (length s - (length (ext_under syn) + 1)) s)), ''ext_price''))"
  by (induction syns) (auto simp: ext_hit_def ext_under_def Let_def)

lemma ext_syn_loop_any_order:
  assumes "set syns = set EXT_PRICE_SYNONYMS"
  shows "ext_syn_loop s s_low syns = ext_syn_loop s s_low EXT_PRICE_SYNONYMS"
proof (cases "find (ext_hit s_low) syns")
  case None
  then have "\<forall>x \<in> set syns. \<not> ext_hit s_low x" by (simp add: find_None_iff)
  with assms have "find (ext_hit s_low) EXT_PRICE_SYNONYMS = None" by (simp add: find_None_iff)
  with None show ?thesis by (simp add: ext_syn_loop_find)
next
  case (Some a)
  then have a: "a \<in> set syns" "ext_hit s_low a" by (auto simp: find_Some_iff in_set_conv_nth)
  with assms have "\<exists>x \<in> set EXT_PRICE_SYNONYMS. ext_hit s_low x" by auto
  then obtain b where fb: "find (ext_hit s_low) EXT_PRICE_SYNONYMS = Some b"
    by (cases "find (ext_hit s_low) EXT_PRICE_SYNONYMS") (auto simp: find_None_iff)
  then have b: "b \<in> set EXT_PRICE_SYNONYMS" "ext_hit s_low b" by (auto simp: find_Some_iff in_set_conv_nth)
  from a(1) assms have "a \<in> set EXT_PRICE_SYNONYMS" by simp
  from ext_hits_same_cut[OF this b(1) a(2) b(2)] Some fb show ?thesis
    by (simp add: ext_syn_loop_find)
qed

subsection \<open>What holds of the emitted item numbers\<close>

text \<open>
  Every emitted item comes from a row that passes \<open>is_data_row\<close>, its item number is
  shorter than 20 characters, and it is not empty when the item-number cell is true.
\<close>

lemma data_row_item_number:
  assumes "is_data_row row rm"
  shows "length (item_number (make_item pf rm bm row)) < 20"
    and "truthy (cell_at rm row ''item_num'') \<Longrightarrow> item_number (make_item pf rm bm row) \<noteq> []"
proof -
  from assms obtain col where c: "map_of rm ''item_num'' = Some col" "col < length row"
      "row ! col \<noteq> CNone" "strip (str (row ! col)) \<noteq> []" "length (strip (str (row ! col))) < 20"
    by (auto simp: is_data_row_def Let_def split: option.splits if_splits)
  then have "cell_at rm row ''item_num'' = row ! col" by (simp add: cell_at_def)
  with c show "length (item_number (make_item pf rm bm row)) < 20"
    and "truthy (cell_at rm row ''item_num'') \<Longrightarrow> item_number (make_item pf rm bm row) \<noteq> []"
    by (simp_all add: make_item_def Let_def)
qed

lemma emitted_items_are_data_rows:
  assumes "parse_sheet pf sn rows = Parsed p" and "it \<in> set (items p)"
  shows "length (item_number it) < 20 \<and>
         (\<exists>row \<in> set rows. is_data_row row (rfq_map p) \<and>
            (truthy (cell_at (rfq_map p) row ''item_num'') \<longrightarrow> item_number it \<noteq> []))"
proof -
  from assms(1) obtain bm hi where
    p: "items p = map (make_item pf (rfq_map p) bm)
                    (filter (\<lambda>row. is_data_row row (rfq_map p)) (drop (hi + 1) rows))"
    by (auto simp: parse_sheet_def Let_def split: if_splits option.splits prod.splits)
  from assms(2) p obtain row where r: "row \<in> set (drop (hi + 1) rows)" "is_data_row row (rfq_map p)"
      "it = make_item pf (rfq_map p) bm row" by auto
  from r(1) have "row \<in> set rows" by (rule in_set_dropD)
  with r(2,3) data_row_item_number[OF r(2), of pf bm] show ?thesis by blast
qed

end
